theory Spec2Isabelle
  imports Main "HOL-Library.Multiset"
begin

section \<open>Contrastive training pairs for topic vectors\<close>

text \<open>
  A shallow embedding of \<^verbatim>\<open>create_training_pairs\<close> from
  \<^verbatim>\<open>src/create_training_samples/create_topic_vector_training_samples.py\<close>.

  Data model.
  \<^item> A topic id is a Python \<^verbatim>\<open>int\<close>: \<^typ>\<open>int\<close>.
  \<^item> A representation is a \<^verbatim>\<open>str\<close>: \<^typ>\<open>string\<close>.
  \<^item> \<^verbatim>\<open>all_samples: Dict[int, List[str]]\<close> is an association list in the iteration
    order of the dictionary (\<^verbatim>\<open>all_samples.items()\<close>). The keys of a dictionary are
    pairwise different; no theorem below needs that.
  \<^item> A raised exception is \<open>Inl\<close> of an \<open>error\<close>; the two \<^verbatim>\<open>ValueError\<close>s of the
    function differ in their message only, so the message is part of the error.
  \<^item> The calls of \<^verbatim>\<open>logger\<close> are collected in a list that is returned beside the result.
  \<^item> \<^verbatim>\<open>random.sample\<close> reads the process-wide random generator. The generator is the
    parameter \<open>rnd\<close>: \<open>rnd i\<close> is the raw value behind the \<open>i\<close>-th draw, and a draw
    below \<open>m\<close> is \<open>rnd i mod m\<close>, so every \<open>rnd\<close> is a possible run and every
    possible run is some \<open>rnd\<close>.
\<close>

subsection \<open>Errors and log records\<close>

datatype message =
    No_positive_samples_found int
  | No_non_empty_negative_sample_lists_found int
  | Num_samples_is_negative int
  | Num_samples_greater_than_total int nat
  | Max_arg_is_an_empty_sequence
  | Sample_larger_than_population_or_is_negative

datatype error = ValueError message

datatype level = ERROR | WARNING

type_synonym log = "(level \<times> message) list"

type_synonym topic_pool = "(int \<times> string list) list"

subsection \<open>Library functions the code calls\<close>

text \<open>
  \<^verbatim>\<open>max(iterable)\<close> raises \<^verbatim>\<open>ValueError\<close> on an empty iterable.
\<close>

fun py_max :: "nat list \<Rightarrow> error + nat" where
  "py_max [] = Inl (ValueError Max_arg_is_an_empty_sequence)"
| "py_max (x # xs) = Inr (fold max xs x)"

text \<open>
  \<^verbatim>\<open>random.sample(population, k)\<close> of the standard library, on a copy of the population:
  \<^verbatim>\<open>
  n = len(population)
  if not 0 <= k <= n: raise ValueError("Sample larger than population or is negative")
  result = [None] * k
  pool = list(population)
  for i in range(k):
      j = randbelow(n - i)
      result[i] = pool[j]
      pool[j] = pool[n - i - 1]
  return result
  \<close>
  The slots of \<open>result\<close> are filled from left to right, so the model appends. The state of
  the loop is the pair of \<open>pool\<close> and \<open>result\<close>. For a population that is large
  against \<open>k\<close> the library draws positions into a set instead and redraws a position it
  already has; both strategies return the elements at \<open>k\<close> pairwise different positions in
  the order drawn, and each such sequence of positions is the outcome of some \<open>rnd\<close> here.
\<close>

definition sample_step :: "(nat \<Rightarrow> nat) \<Rightarrow> nat \<Rightarrow> nat \<Rightarrow> 'a list \<times> 'a list \<Rightarrow> 'a list \<times> 'a list" where
  "sample_step rnd n i st =
     (let pool = fst st; result = snd st;
          j = rnd i mod (n - i)
      in (pool[j := pool ! (n - i - 1)], result @ [pool ! j]))"

definition random_sample :: "(nat \<Rightarrow> nat) \<Rightarrow> 'a list \<Rightarrow> int \<Rightarrow> error + 'a list" where
  "random_sample rnd population k =
     (let n = length population
      in if \<not> (0 \<le> k \<and> k \<le> int n)
         then Inl (ValueError Sample_larger_than_population_or_is_negative)
         else Inr (snd (fold (sample_step rnd n) [0..<nat k] (population, []))))"

subsection \<open>The function\<close>

text \<open>
  Lines 93--96: the sequences of the topics other than the positive one that are not empty,
  in the iteration order of the dictionary.
\<close>

definition negative_lists :: "topic_pool \<Rightarrow> int \<Rightarrow> string list list" where
  "negative_lists all_samples tid_positive =
     [negs. (tid, negs) \<leftarrow> all_samples, tid \<noteq> tid_positive \<and> negs \<noteq> []]"

text \<open>
  Lines 109--117: \<open>max_len\<close>, then the two nested loops that append \<open>neg_list[i]\<close>.
\<close>

definition interleaved_negatives :: "'a list list \<Rightarrow> error + 'a list" where
  "interleaved_negatives neg_lists =
     (case py_max (map length neg_lists) of
        Inl e \<Rightarrow> Inl e
      | Inr max_len \<Rightarrow>
          Inr [neg_list ! i. i \<leftarrow> [0..<max_len], neg_list \<leftarrow> neg_lists, i < length neg_list])"

text \<open>Lines 120--123: the two nested loops that append \<open>(pos_sample, neg_sample)\<close>.\<close>

definition all_pairs :: "'a list \<Rightarrow> 'b list \<Rightarrow> ('a \<times> 'b) list" where
  "all_pairs positive_samples negatives =
     [(pos_sample, neg_sample). pos_sample \<leftarrow> positive_samples, neg_sample \<leftarrow> negatives]"

definition create_training_pairs ::
  "(nat \<Rightarrow> nat) \<Rightarrow> string list \<Rightarrow> topic_pool \<Rightarrow> int \<Rightarrow> int \<Rightarrow> log \<times> (error + (string \<times> string) list)" where
  "create_training_pairs rnd positive_samples all_samples tid_positive num_samples =
     (let neg_lists = negative_lists all_samples tid_positive
      in if positive_samples = []
         then ([(ERROR, No_positive_samples_found tid_positive)],
               Inl (ValueError (No_positive_samples_found tid_positive)))
         else if neg_lists = []
         then ([(ERROR, No_non_empty_negative_sample_lists_found tid_positive)],
               Inl (ValueError (No_non_empty_negative_sample_lists_found tid_positive)))
         else if num_samples < 0
         then ([(WARNING, Num_samples_is_negative num_samples)], Inr [])
         else (case interleaved_negatives neg_lists of
                 Inl e \<Rightarrow> ([], Inl e)
               | Inr negatives \<Rightarrow>
                   let pairs = all_pairs positive_samples negatives;
                       total_possible_pairs = length pairs
                   in if num_samples \<le> int total_possible_pairs
                      then ([], random_sample rnd pairs num_samples)
                      else ([(WARNING, Num_samples_greater_than_total num_samples total_possible_pairs)],
                            Inr pairs)))"

subsection \<open>Notions of the specification\<close>

text \<open>
  The positions of the population that \<open>random_sample\<close> returns, in the order drawn: the
  sample of the population \<open>0, 1, \<dots>, n - 1\<close>.
\<close>

definition sample_positions :: "(nat \<Rightarrow> nat) \<Rightarrow> nat \<Rightarrow> nat \<Rightarrow> nat list" where
  "sample_positions rnd n k = snd (fold (sample_step rnd n) [0..<k] ([0..<n], []))"

text \<open>
  The interleaving in the words of the specification (section 4.1, step 1), to be compared
  with \<open>interleaved_negatives\<close>: "for round index i = 0, 1, 2, \<dots>, visit each contributing
  topic in a fixed, stable order (the iteration order of the pool) and, if that topic's
  sequence has an element at index i, append it. Continue until every contributing sequence
  is exhausted." \<open>round_at i\<close> is round \<open>i\<close>; \<open>round_robin_from i\<close> is the rounds from
  \<open>i\<close> on, and stops at the first round at which every sequence is exhausted.
\<close>

definition round_at :: "nat \<Rightarrow> 'a list list \<Rightarrow> 'a list" where
  "round_at i seqs = [s ! i. s \<leftarrow> seqs, i < length s]"

function round_robin_from :: "nat \<Rightarrow> 'a list list \<Rightarrow> 'a list" where
  "round_robin_from i seqs =
     (if \<forall>s \<in> set seqs. length s \<le> i then []
      else round_at i seqs @ round_robin_from (Suc i) seqs)"
  by pat_completeness auto
termination
proof (relation "measure (\<lambda>(i, seqs). Max (set (map length seqs)) - i)")
  show "wf (measure (\<lambda>(i, seqs). Max (set (map length seqs)) - i))" by simp
next
  fix i :: nat and seqs :: "'a list list"
  assume "\<not> (\<forall>s \<in> set seqs. length s \<le> i)"
  then obtain s where s: "s \<in> set seqs" "i < length s" by auto
  then have "length s \<in> set (map length seqs)" by simp
  then have "length s \<le> Max (set (map length seqs))" by (rule Max_ge[OF finite_set])
  with s have "i < Max (set (map length seqs))" by (rule_tac less_le_trans)
  then have "Max (set (map length seqs)) - Suc i < Max (set (map length seqs)) - i"
    by (rule diff_less_mono2[OF lessI])
  then show "((Suc i, seqs), (i, seqs)) \<in> measure (\<lambda>(i, seqs). Max (set (map length seqs)) - i)"
    by (simp del: set_map)
qed

declare round_robin_from.simps [simp del]

text \<open>
  The contributing sequences are "the representation sequences of every topic other than
  \<open>positiveTopicId\<close> that is non-empty".
\<close>

definition round_robin_interleaving :: "topic_pool \<Rightarrow> int \<Rightarrow> string list" where
  "round_robin_interleaving pool positive_topic_id =
     round_robin_from 0 (map snd (filter (\<lambda>(tid, s). tid \<noteq> positive_topic_id \<and> s \<noteq> []) pool))"

text \<open>
  A valid pool: the positive sequence is not empty and some other topic has a representation.
\<close>

definition valid_pool :: "string list \<Rightarrow> topic_pool \<Rightarrow> int \<Rightarrow> bool" where
  "valid_pool positive_samples all_samples tid_positive \<longleftrightarrow>
     positive_samples \<noteq> [] \<and>
     (\<exists>(tid, negs) \<in> set all_samples. tid \<noteq> tid_positive \<and> negs \<noteq> [])"

text \<open>
  The candidate enumeration: \<open>all_pairs\<close> of the source on the positive sequence and the
  interleaved negatives. The source builds it only after \<open>max\<close> has returned.
\<close>

definition candidate_pairs :: "string list \<Rightarrow> topic_pool \<Rightarrow> int \<Rightarrow> (string \<times> string) list" where
  "candidate_pairs positive_samples all_samples tid_positive =
     (case interleaved_negatives (negative_lists all_samples tid_positive) of
        Inl e \<Rightarrow> []
      | Inr negatives \<Rightarrow> all_pairs positive_samples negatives)"

text \<open>
  The pool of the end-to-end example of the specification (section 8), with positive topic 1.
\<close>

definition example_pool :: topic_pool where
  "example_pool = [(1, [''p1'', ''p2'']), (2, [''n1'']), (3, [''n2'', ''n3''])]"

subsection \<open>The call on an explicit store\<close>

text \<open>
  For the question of what the call mutates, the same source lines are embedded a second
  time over a store of Python objects. An address is an index into the store, a new object
  gets the first unused address, \<^verbatim>\<open>xs.append(v)\<close> and \<^verbatim>\<open>xs[i] = v\<close> overwrite the
  object at the address of \<open>xs\<close>. The parameters \<open>positive_samples\<close> and
  \<open>all_samples\<close> are addresses; the dictionary maps a topic id to the address of its list,
  so the list of a topic can be shared with \<open>positive_samples\<close>, as it is in
  \<^verbatim>\<open>create_topic_vector_training_samples\<close>. Reading an address that holds no list gives
  the empty list. \<open>random_sample_st\<close> is \<^verbatim>\<open>random.sample\<close> as above, with its own
  \<open>result\<close> and \<open>pool\<close> objects.
\<close>

type_synonym addr = nat

datatype val = Str string | Ref addr | Tuple val val | PyNone

datatype obj = PyList "val list" | PyDict "(int \<times> addr) list"

type_synonym store = "obj list"

definition alloc :: "store \<Rightarrow> obj \<Rightarrow> store \<times> addr" where
  "alloc s ob = (s @ [ob], length s)"

definition elems :: "store \<Rightarrow> addr \<Rightarrow> val list" where
  "elems s a =
     (if a < length s then (case s ! a of PyList vs \<Rightarrow> vs | PyDict d \<Rightarrow> []) else [])"

definition items :: "store \<Rightarrow> addr \<Rightarrow> (int \<times> addr) list" where
  "items s a =
     (if a < length s then (case s ! a of PyList vs \<Rightarrow> [] | PyDict d \<Rightarrow> d) else [])"

fun elems_of :: "store \<Rightarrow> val \<Rightarrow> val list" where
  "elems_of s (Ref a) = elems s a"
| "elems_of s v = []"

definition list_append :: "store \<Rightarrow> addr \<Rightarrow> val \<Rightarrow> store" where
  "list_append s a v =
     (if a < length s
      then (case s ! a of PyList vs \<Rightarrow> s[a := PyList (vs @ [v])] | PyDict d \<Rightarrow> s)
      else s)"

definition list_set :: "store \<Rightarrow> addr \<Rightarrow> nat \<Rightarrow> val \<Rightarrow> store" where
  "list_set s a i v =
     (if a < length s
      then (case s ! a of PyList vs \<Rightarrow> s[a := PyList (vs[i := v])] | PyDict d \<Rightarrow> s)
      else s)"

definition sample_step_st :: "(nat \<Rightarrow> nat) \<Rightarrow> nat \<Rightarrow> addr \<Rightarrow> addr \<Rightarrow> nat \<Rightarrow> store \<Rightarrow> store" where
  "sample_step_st rnd n pool result i s =
     (let j = rnd i mod (n - i);
          s' = list_set s result i (elems s pool ! j)
      in list_set s' pool j (elems s' pool ! (n - i - 1)))"

definition random_sample_st :: "(nat \<Rightarrow> nat) \<Rightarrow> store \<Rightarrow> addr \<Rightarrow> int \<Rightarrow> store \<times> (error + addr)" where
  "random_sample_st rnd s population k =
     (let n = length (elems s population)
      in if \<not> (0 \<le> k \<and> k \<le> int n)
         then (s, Inl (ValueError Sample_larger_than_population_or_is_negative))
         else (case alloc s (PyList (replicate (nat k) PyNone)) of (s1, result) \<Rightarrow>
               (case alloc s1 (PyList (elems s1 population)) of (s2, pool) \<Rightarrow>
                  (fold (sample_step_st rnd n pool result) [0..<nat k] s2, Inr result))))"

definition interleave_inner :: "addr \<Rightarrow> nat \<Rightarrow> val \<Rightarrow> store \<Rightarrow> store" where
  "interleave_inner interleaved i neg_list s =
     (if i < length (elems_of s neg_list)
      then list_append s interleaved (elems_of s neg_list ! i)
      else s)"

definition interleave_outer :: "addr \<Rightarrow> addr \<Rightarrow> nat \<Rightarrow> store \<Rightarrow> store" where
  "interleave_outer neg_lists interleaved i s =
     fold (interleave_inner interleaved i) (elems s neg_lists) s"

definition pairs_inner :: "addr \<Rightarrow> val \<Rightarrow> val \<Rightarrow> store \<Rightarrow> store" where
  "pairs_inner pairs pos_sample neg_sample s = list_append s pairs (Tuple pos_sample neg_sample)"

definition pairs_outer :: "addr \<Rightarrow> addr \<Rightarrow> val \<Rightarrow> store \<Rightarrow> store" where
  "pairs_outer interleaved pairs pos_sample s =
     fold (pairs_inner pairs pos_sample) (elems s interleaved) s"

definition create_training_pairs_st ::
  "(nat \<Rightarrow> nat) \<Rightarrow> store \<Rightarrow> addr \<Rightarrow> addr \<Rightarrow> int \<Rightarrow> int \<Rightarrow> store \<times> (error + addr)" where
  "create_training_pairs_st rnd s positive_samples all_samples tid_positive num_samples =
     (case alloc s (PyList [Ref negs. (tid, negs) \<leftarrow> items s all_samples,
                                      tid \<noteq> tid_positive \<and> elems s negs \<noteq> []])
      of (s1, neg_lists) \<Rightarrow>
        if elems s1 positive_samples = []
        then (s1, Inl (ValueError (No_positive_samples_found tid_positive)))
        else if elems s1 neg_lists = []
        then (s1, Inl (ValueError (No_non_empty_negative_sample_lists_found tid_positive)))
        else if num_samples < 0
        then (case alloc s1 (PyList []) of (s2, r) \<Rightarrow> (s2, Inr r))
        else (case alloc s1 (PyList []) of (s2, interleaved) \<Rightarrow>
              (case py_max (map (\<lambda>neg_list. length (elems_of s2 neg_list)) (elems s2 neg_lists)) of
                 Inl e \<Rightarrow> (s2, Inl e)
               | Inr max_len \<Rightarrow>
                  (case alloc (fold (interleave_outer neg_lists interleaved) [0..<max_len] s2) (PyList [])
                   of (s3, pairs) \<Rightarrow>
                     let s4 = fold (pairs_outer interleaved pairs) (elems s3 positive_samples) s3;
                         total_possible_pairs = length (elems s4 pairs)
                     in if num_samples \<le> int total_possible_pairs
                        then random_sample_st rnd s4 pairs num_samples
                        else (s4, Inr pairs)))))"

text \<open>
  What a store holds, for comparing the two embeddings: the list of strings at an address,
  the pool behind the dictionary at an address, and the tuple object of a pair.
\<close>

definition tuple_of :: "string \<times> string \<Rightarrow> val" where
  "tuple_of p = Tuple (Str (fst p)) (Str (snd p))"

definition holds_strings :: "store \<Rightarrow> addr \<Rightarrow> string list \<Rightarrow> bool" where
  "holds_strings s a xs \<longleftrightarrow> a < length s \<and> s ! a = PyList (map Str xs)"

definition holds_pool :: "store \<Rightarrow> addr \<Rightarrow> topic_pool \<Rightarrow> bool" where
  "holds_pool s a pool \<longleftrightarrow>
     a < length s \<and>
     (case s ! a of
        PyList vs \<Rightarrow> False
      | PyDict d \<Rightarrow>
          list_all2 (\<lambda>entry topic. fst entry = fst topic \<and> holds_strings s (snd entry) (snd topic))
            d pool)"

text \<open>
  The pool of the end-to-end example as a store: the dictionary at address 0, the lists of the
  topics 1, 2 and 3 at the addresses 1, 2 and 3.
\<close>

definition example_store :: store where
  "example_store =
     [PyDict [(1, 1), (2, 2), (3, 3)],
      PyList [Str ''p1'', Str ''p2''],
      PyList [Str ''n1''],
      PyList [Str ''n2'', Str ''n3'']]"

section \<open>Lemmas\<close>

lemma sample_fold_inv:
  "k \<le> length xs \<Longrightarrow>
   length (fst (fold (sample_step rnd (length xs)) [0..<k] (xs, []))) = length xs \<and>
   length (snd (fold (sample_step rnd (length xs)) [0..<k] (xs, []))) = k \<and>
   mset (snd (fold (sample_step rnd (length xs)) [0..<k] (xs, []))) +
     mset (take (length xs - k) (fst (fold (sample_step rnd (length xs)) [0..<k] (xs, [])))) = mset xs"
proof (induction k)
  case 0
  then show ?case by simp
next
  case (Suc k)
  define n where "n = length xs"
  define st where "st = fold (sample_step rnd n) [0..<k] (xs, [])"
  define pool where "pool = fst st"
  define result where "result = snd st"
  define m where "m = n - k - 1"
  define j where "j = rnd k mod (n - k)"
  from Suc have k: "k < n" by (simp add: n_def)
  from Suc have len: "length pool = n" and lr: "length result = k"
    and ms: "mset result + mset (take (n - k) pool) = mset xs"
    by (simp_all add: n_def st_def pool_def result_def)
  have nk: "n - k = Suc m" using k by (simp add: m_def)
  have jm: "j \<le> m" using k nk by (simp add: j_def less_Suc_eq_le[symmetric])
  have m: "m < n" using k by (simp add: m_def)
  have step: "fold (sample_step rnd n) [0..<Suc k] (xs, []) = (pool[j := pool ! m], result @ [pool ! j])"
    by (simp add: sample_step_def st_def pool_def result_def j_def m_def Let_def)
  have tk: "take (Suc m) pool = take m pool @ [pool ! m]"
    using m len by (simp add: take_Suc_conv_app_nth)
  have A: "mset (take m (pool[j := pool ! m])) + {#pool ! j#} = mset (take (Suc m) pool)"
  proof (cases "j = m")
    case True
    then show ?thesis using tk by simp
  next
    case False
    with jm have jl: "j < m" by simp
    then have "take m (pool[j := pool ! m]) = (take m pool)[j := pool ! m]"
      by (simp add: take_update_swap)
    moreover have "j < length (take m pool)" using jl m len by simp
    moreover have "take m pool ! j = pool ! j" using jl by simp
    moreover have "pool ! j \<in># mset (take m pool)"
      using \<open>j < length (take m pool)\<close> \<open>take m pool ! j = pool ! j\<close>
      by (metis nth_mem_mset)
    ultimately show ?thesis using tk by (simp add: mset_update)
  qed
  have nsk: "n - Suc k = m" by (simp add: m_def)
  have "mset (result @ [pool ! j]) + mset (take m (pool[j := pool ! m])) =
        mset result + (mset (take m (pool[j := pool ! m])) + {#pool ! j#})"
    by simp
  also have "\<dots> = mset result + mset (take (Suc m) pool)"
    by (simp only: A)
  also have "\<dots> = mset xs"
    using ms by (simp only: nk)
  finally have "mset (result @ [pool ! j]) + mset (take (n - Suc k) (pool[j := pool ! m])) = mset xs"
    by (simp only: nsk)
  then show ?case
    using len lr unfolding n_def[symmetric] step by simp
qed

lemma sample_fold_map:
  "k \<le> length xs \<Longrightarrow>
   fold (sample_step rnd (length xs)) [0..<k] (map f xs, []) =
   map_prod (map f) (map f) (fold (sample_step rnd (length xs)) [0..<k] (xs, []))"
proof (induction k)
  case 0
  then show ?case by simp
next
  case (Suc k)
  define n where "n = length xs"
  define st where "st = fold (sample_step rnd n) [0..<k] (xs, [])"
  from Suc have k: "k < n" by (simp add: n_def)
  have len: "length (fst st) = n"
    using sample_fold_inv[of k xs rnd] k by (simp add: n_def st_def)
  have IH: "fold (sample_step rnd n) [0..<k] (map f xs, []) = map_prod (map f) (map f) st"
    using Suc by (simp add: n_def st_def)
  have j: "rnd k mod (n - k) < n"
    using k by (meson diff_less_mono2 less_imp_diff_less mod_less_divisor zero_less_diff less_trans
        diff_le_self le_trans less_le_trans)
  have m: "n - k - 1 < n" using k by simp
  have "sample_step rnd n k (map_prod (map f) (map f) st) =
        map_prod (map f) (map f) (sample_step rnd n k st)"
    using j m len by (simp add: sample_step_def Let_def map_update)
  then show ?case
    using IH unfolding n_def[symmetric] st_def by simp
qed

lemma random_sample_positions:
  assumes "0 \<le> k" "k \<le> int (length xs)"
  shows "random_sample rnd xs k = Inr (map (nth xs) (sample_positions rnd (length xs) (nat k)))"
proof -
  have k: "nat k \<le> length [0..<length xs]" using assms by simp
  have "fold (sample_step rnd (length xs)) [0..<nat k] (map (nth xs) [0..<length xs], []) =
        map_prod (map (nth xs)) (map (nth xs))
          (fold (sample_step rnd (length xs)) [0..<nat k] ([0..<length xs], []))"
    using sample_fold_map[OF k, of rnd "nth xs"] by simp
  then show ?thesis
    using assms by (simp add: random_sample_def sample_positions_def map_nth Let_def)
qed

lemma sample_positions_props:
  assumes "k \<le> n"
  shows "length (sample_positions rnd n k) = k"
    and "distinct (sample_positions rnd n k)"
    and "set (sample_positions rnd n k) \<subseteq> {..<n}"
    and "k = n \<Longrightarrow> mset (sample_positions rnd n k) = mset [0..<n]"
proof -
  define st where "st = fold (sample_step rnd n) [0..<k] ([0..<n], [])"
  have inv: "length (snd st) = k"
    "mset (snd st) + mset (take (n - k) (fst st)) = mset [0..<n]"
    using sample_fold_inv[of k "[0..<n]" rnd] assms by (simp_all add: st_def)
  show "length (sample_positions rnd n k) = k"
    using inv(1) by (simp add: sample_positions_def st_def)
  have sub: "mset (snd st) \<subseteq># mset [0..<n]"
    using inv(2) by (metis mset_subset_eq_add_left)
  have "distinct (snd st)"
    using sub by (metis distinct_upt mset_eq_imp_distinct_iff distinct_append
        mset_subset_eq_exists_conv mset_append ex_mset)
  then show "distinct (sample_positions rnd n k)"
    by (simp add: sample_positions_def st_def)
  have "set (snd st) \<subseteq> set [0..<n]"
    using sub by (metis set_mset_mono set_mset_mset)
  then show "set (sample_positions rnd n k) \<subseteq> {..<n}"
    by (auto simp: sample_positions_def st_def)
  show "mset (sample_positions rnd n k) = mset [0..<n]" if "k = n"
    using inv(2) that by (simp add: sample_positions_def st_def)
qed

lemma negative_lists_filter:
  "negative_lists all_samples tid_positive =
   map snd (filter (\<lambda>(tid, s). tid \<noteq> tid_positive \<and> s \<noteq> []) all_samples)"
  unfolding negative_lists_def
  by (induction all_samples) auto

lemma negative_lists_empty_iff:
  "negative_lists all_samples tid_positive = [] \<longleftrightarrow>
   \<not> (\<exists>(tid, negs) \<in> set all_samples. tid \<noteq> tid_positive \<and> negs \<noteq> [])"
  unfolding negative_lists_filter
  by (auto simp: filter_empty_conv)

lemma set_negative_lists:
  "set (negative_lists all_samples tid_positive) =
   {negs. \<exists>tid. (tid, negs) \<in> set all_samples \<and> tid \<noteq> tid_positive \<and> negs \<noteq> []}"
  unfolding negative_lists_filter by force

lemma py_max_Max:
  assumes "xs \<noteq> []"
  shows "py_max xs = Inr (Max (set xs))"
proof (cases xs)
  case Nil
  with assms show ?thesis by simp
next
  case (Cons a list)
  have "fold max list a = Max (set (a # list))" by (rule Max.set_eq_fold[symmetric])
  with Cons show ?thesis by (simp del: Max_insert)
qed

lemma rounds_exhausted:
  "\<forall>s \<in> set seqs. length s \<le> i \<Longrightarrow> i \<le> i' \<Longrightarrow> round_at i' seqs = []"
  unfolding round_at_def by (induction seqs) auto

lemma round_robin_from_rounds:
  "\<forall>s \<in> set seqs. length s \<le> M \<Longrightarrow>
   round_robin_from i seqs = concat (map (\<lambda>i. round_at i seqs) [i..<M])"
proof (induction i seqs rule: round_robin_from.induct)
  case (1 i seqs)
  show ?case
  proof (cases "\<forall>s \<in> set seqs. length s \<le> i")
    case True
    then have "\<forall>i' \<in> set [i..<M]. round_at i' seqs = []"
      using rounds_exhausted by fastforce
    then have "concat (map (\<lambda>i. round_at i seqs) [i..<M]) = []"
      by simp
    with True show ?thesis by (simp add: round_robin_from.simps[of i seqs])
  next
    case False
    then obtain s where "s \<in> set seqs" "i < length s" by auto
    with "1.prems" have "i < M" by fastforce
    then have "[i..<M] = i # [Suc i..<M]" by (simp add: upt_conv_Cons)
    moreover have "round_robin_from (Suc i) seqs = concat (map (\<lambda>i. round_at i seqs) [Suc i..<M])"
      using False "1.IH" "1.prems" by blast
    moreover have "round_robin_from i seqs = round_at i seqs @ round_robin_from (Suc i) seqs"
      using False by (subst round_robin_from.simps) (simp only: if_False)
    ultimately show ?thesis by simp
  qed
qed

lemma interleaved_negatives_rounds:
  "neg_lists \<noteq> [] \<Longrightarrow>
   interleaved_negatives neg_lists =
   Inr (concat (map (\<lambda>i. round_at i neg_lists) [0..<Max (set (map length neg_lists))]))"
  unfolding interleaved_negatives_def round_at_def
  by (simp add: py_max_Max)

lemma interleaved_negatives_round_robin:
  assumes "neg_lists \<noteq> []"
  shows "interleaved_negatives neg_lists = Inr (round_robin_from 0 neg_lists)"
proof -
  have "\<forall>s \<in> set neg_lists. length s \<le> Max (set (map length neg_lists))" by simp
  then have "round_robin_from 0 neg_lists =
      concat (map (\<lambda>i. round_at i neg_lists) [0..<Max (set (map length neg_lists))])"
    by (rule round_robin_from_rounds)
  then show ?thesis
    using interleaved_negatives_rounds[OF assms] by (simp only:)
qed

lemma sum_list_singletons: "(\<Sum>x\<leftarrow>xs. {#f x#}) = mset (map f xs)"
  by (induction xs) simp_all

lemma sum_list_exhausted:
  "length s \<le> a \<Longrightarrow>
   (\<Sum>i\<leftarrow>[a..<b]. if i < length s then {#s ! i#} else ({#} :: 'a multiset)) = {#}"
  by (induction b) auto

lemma mset_rounds_one:
  assumes le: "length s \<le> M"
  shows "(\<Sum>i\<leftarrow>[0..<M]. if i < length s then {#s ! i#} else {#}) = mset s"
proof -
  have "[0..<M] = [0..<length s] @ [length s..<M]"
    using le by (metis upt_add_eq_append le_add_diff_inverse zero_le)
  then have "(\<Sum>i\<leftarrow>[0..<M]. if i < length s then {#s ! i#} else {#}) =
        (\<Sum>i\<leftarrow>[0..<length s]. if i < length s then {#s ! i#} else {#}) +
        (\<Sum>i\<leftarrow>[length s..<M]. if i < length s then {#s ! i#} else ({#} :: 'a multiset))"
    by simp
  also have "(\<Sum>i\<leftarrow>[length s..<M]. if i < length s then {#s ! i#} else ({#} :: 'a multiset)) = {#}"
    by (rule sum_list_exhausted) simp
  also have "(\<Sum>i\<leftarrow>[0..<length s]. if i < length s then {#s ! i#} else {#}) =
             (\<Sum>i\<leftarrow>[0..<length s]. {#s ! i#})"
    by (rule arg_cong[where f = sum_list]) simp
  also have "\<dots> = mset (map (nth s) [0..<length s])"
    by (rule sum_list_singletons)
  finally show ?thesis by (simp add: map_nth)
qed

lemma round_Cons:
  "round_at i (s # seqs) = (if i < length s then [s ! i] else []) @ round_at i seqs"
  by (simp add: round_at_def)

lemma mset_rounds:
  "\<forall>s \<in> set seqs. length s \<le> M \<Longrightarrow>
   (\<Sum>i\<leftarrow>[0..<M]. mset (round_at i seqs)) = mset (concat seqs)"
proof (induction seqs)
  case Nil
  show ?case by (induction M) (simp_all add: round_at_def)
next
  case (Cons s seqs)
  have "(\<Sum>i\<leftarrow>[0..<M]. mset (round_at i (s # seqs))) =
        (\<Sum>i\<leftarrow>[0..<M]. (if i < length s then {#s ! i#} else {#}) + mset (round_at i seqs))"
    by (rule arg_cong[where f = sum_list]) (simp add: round_Cons)
  also have "\<dots> = (\<Sum>i\<leftarrow>[0..<M]. if i < length s then {#s ! i#} else {#}) +
                   (\<Sum>i\<leftarrow>[0..<M]. mset (round_at i seqs))"
    by (rule sum_list_addf)
  also have "\<dots> = mset s + mset (concat seqs)"
    using Cons by (simp add: mset_rounds_one)
  finally show ?case by simp
qed

lemma mset_interleaved:
  "\<forall>s \<in> set seqs. length s \<le> M \<Longrightarrow>
   mset (concat (map (\<lambda>i. round_at i seqs) [0..<M])) = mset (concat seqs)"
  using mset_rounds[of seqs M] by (simp add: mset_concat comp_def)

lemma interleaved_negatives_mset:
  assumes "neg_lists \<noteq> []" "interleaved_negatives neg_lists = Inr negatives"
  shows "mset negatives = mset (concat neg_lists)"
proof -
  have "\<forall>s \<in> set neg_lists. length s \<le> Max (set (map length neg_lists))" by simp
  then have "mset (concat (map (\<lambda>i. round_at i neg_lists) [0..<Max (set (map length neg_lists))])) =
             mset (concat neg_lists)"
    by (rule mset_interleaved)
  then show ?thesis
    using interleaved_negatives_rounds[OF assms(1)] assms(2) by (simp only: sum.inject)
qed

lemma valid_pool_iff:
  "valid_pool positive_samples all_samples tid_positive \<longleftrightarrow>
   positive_samples \<noteq> [] \<and> negative_lists all_samples tid_positive \<noteq> []"
  by (simp only: valid_pool_def negative_lists_empty_iff not_not)

lemma all_pairs_product: "all_pairs xs ys = List.product xs ys"
  by (simp add: all_pairs_def product_concat_map)

lemma candidate_pairs_round_robin:
  assumes "valid_pool positive_samples all_samples tid_positive"
  shows "candidate_pairs positive_samples all_samples tid_positive =
         List.product positive_samples (round_robin_interleaving all_samples tid_positive)"
proof -
  have "negative_lists all_samples tid_positive \<noteq> []"
    using assms by (simp add: valid_pool_iff)
  then have "interleaved_negatives (negative_lists all_samples tid_positive) =
             Inr (round_robin_interleaving all_samples tid_positive)"
    unfolding round_robin_interleaving_def negative_lists_filter[symmetric]
    by (rule interleaved_negatives_round_robin)
  then show ?thesis
    by (simp add: candidate_pairs_def all_pairs_product)
qed

lemma candidate_pairs_mset:
  assumes "valid_pool positive_samples all_samples tid_positive"
  shows "\<exists>negatives. candidate_pairs positive_samples all_samples tid_positive =
           List.product positive_samples negatives \<and>
           mset negatives = mset (concat (negative_lists all_samples tid_positive))"
proof -
  have ne: "negative_lists all_samples tid_positive \<noteq> []"
    using assms by (simp add: valid_pool_iff)
  then obtain negatives where
    n: "interleaved_negatives (negative_lists all_samples tid_positive) = Inr negatives"
    using interleaved_negatives_round_robin by blast
  then have "mset negatives = mset (concat (negative_lists all_samples tid_positive))"
    using ne by (simp only: interleaved_negatives_mset)
  with n show ?thesis
    by (auto simp: candidate_pairs_def all_pairs_product)
qed

lemma create_training_pairs_valid:
  assumes "valid_pool positive_samples all_samples tid_positive"
  shows "create_training_pairs rnd positive_samples all_samples tid_positive num_samples =
         (let pairs = candidate_pairs positive_samples all_samples tid_positive
          in if num_samples < 0 then ([(WARNING, Num_samples_is_negative num_samples)], Inr [])
             else if num_samples \<le> int (length pairs)
             then ([], Inr (map (nth pairs) (sample_positions rnd (length pairs) (nat num_samples))))
             else ([(WARNING, Num_samples_greater_than_total num_samples (length pairs))], Inr pairs))"
proof -
  have ne: "positive_samples \<noteq> []" "negative_lists all_samples tid_positive \<noteq> []"
    using assms by (simp_all add: valid_pool_iff)
  obtain negatives where
    n: "interleaved_negatives (negative_lists all_samples tid_positive) = Inr negatives"
    using ne(2) interleaved_negatives_round_robin by blast
  show ?thesis
    using ne n
    by (simp add: create_training_pairs_def candidate_pairs_def Let_def random_sample_positions)
qed

lemma create_training_pairs_no_positive:
  "create_training_pairs rnd [] all_samples tid_positive num_samples =
     ([(ERROR, No_positive_samples_found tid_positive)],
      Inl (ValueError (No_positive_samples_found tid_positive)))"
  by (simp add: create_training_pairs_def)

lemma create_training_pairs_no_negative:
  assumes "positive_samples \<noteq> []"
    and "\<not> (\<exists>(tid, negs) \<in> set all_samples. tid \<noteq> tid_positive \<and> negs \<noteq> [])"
  shows "create_training_pairs rnd positive_samples all_samples tid_positive num_samples =
     ([(ERROR, No_non_empty_negative_sample_lists_found tid_positive)],
      Inl (ValueError (No_non_empty_negative_sample_lists_found tid_positive)))"
proof -
  have "negative_lists all_samples tid_positive = []"
    using assms(2) by (simp add: negative_lists_empty_iff)
  with assms(1) show ?thesis
    by (simp add: create_training_pairs_def)
qed

lemma create_training_pairs_Inr_valid:
  assumes "snd (create_training_pairs rnd positive_samples all_samples tid_positive num_samples) = Inr ps"
  shows "valid_pool positive_samples all_samples tid_positive"
proof (rule ccontr)
  assume nv: "\<not> valid_pool positive_samples all_samples tid_positive"
  show False
  proof (cases "positive_samples = []")
    case True
    with assms show False by (simp add: create_training_pairs_no_positive)
  next
    case False
    with nv have "\<not> (\<exists>(tid, negs) \<in> set all_samples. tid \<noteq> tid_positive \<and> negs \<noteq> [])"
      by (simp add: valid_pool_def)
    with False assms show False by (simp add: create_training_pairs_no_negative)
  qed
qed

lemma create_training_pairs_subset:
  assumes "snd (create_training_pairs rnd positive_samples all_samples tid_positive num_samples) = Inr ps"
  shows "set ps \<subseteq> set (candidate_pairs positive_samples all_samples tid_positive)"
proof -
  define pairs where "pairs = candidate_pairs positive_samples all_samples tid_positive"
  have v: "valid_pool positive_samples all_samples tid_positive"
    using assms by (rule create_training_pairs_Inr_valid)
  show ?thesis
  proof (cases "0 \<le> num_samples \<and> num_samples \<le> int (length pairs)")
    case True
    then have k: "nat num_samples \<le> length pairs" by linarith
    have "ps = map (nth pairs) (sample_positions rnd (length pairs) (nat num_samples))"
      using assms True unfolding create_training_pairs_valid[OF v] pairs_def[symmetric]
      by (simp add: Let_def)
    moreover have "set (sample_positions rnd (length pairs) (nat num_samples)) \<subseteq> {..<length pairs}"
      using k by (rule sample_positions_props(3))
    ultimately show ?thesis
      unfolding pairs_def[symmetric] by auto
  next
    case False
    then have "ps = [] \<or> ps = pairs"
      using assms unfolding create_training_pairs_valid[OF v] pairs_def[symmetric]
      by (auto simp: Let_def split: if_splits)
    then show ?thesis unfolding pairs_def[symmetric] by auto
  qed
qed

lemma set_candidate_pairs:
  assumes "valid_pool positive_samples all_samples tid_positive"
  shows "set (candidate_pairs positive_samples all_samples tid_positive) =
         set positive_samples \<times> \<Union> (set ` set (negative_lists all_samples tid_positive))"
proof -
  obtain negatives where n: "candidate_pairs positive_samples all_samples tid_positive =
           List.product positive_samples negatives"
    "mset negatives = mset (concat (negative_lists all_samples tid_positive))"
    using candidate_pairs_mset[OF assms] by blast
  from n(2) have "set negatives = set (concat (negative_lists all_samples tid_positive))"
    by (rule mset_eq_setD)
  with n(1) show ?thesis by simp
qed

section \<open>The claims\<close>

subsection \<open>The worked example of the specification\<close>

lemma example_pool_valid: "valid_pool [''p1'', ''p2''] example_pool 1"
  by (simp add: valid_pool_def example_pool_def)

lemma example_pool_candidates:
  "candidate_pairs [''p1'', ''p2''] example_pool 1 =
     [(''p1'', ''n1''), (''p1'', ''n2''), (''p1'', ''n3''),
      (''p2'', ''n1''), (''p2'', ''n2''), (''p2'', ''n3'')]"
  by (simp add: candidate_pairs_def negative_lists_def interleaved_negatives_def all_pairs_def
      example_pool_def upt_conv_Cons)

lemma example_pool_sample_4:
  "create_training_pairs Suc [''p1'', ''p2''] example_pool 1 4 =
     ([], Inr [(''p1'', ''n2''), (''p1'', ''n3''), (''p2'', ''n1''), (''p2'', ''n3'')])"
  by (simp add: create_training_pairs_def negative_lists_def interleaved_negatives_def
      all_pairs_def example_pool_def random_sample_def sample_step_def Let_def upt_conv_Cons)

subsection \<open>C1: a count that is not below the number of candidates\<close>

text \<open>
  C1, the amended claim. For every valid pool the candidate enumeration is the cross-product
  of the positive sequence with the round-robin interleaving, positive sequence first. When
  \<open>num_samples\<close> is strictly greater than the number of candidates, the call logs one
  warning and returns all candidates in the order of the enumeration. When \<open>num_samples\<close>
  equals the number of candidates, the call goes through \<^verbatim>\<open>random.sample\<close>: it logs
  nothing and returns every candidate exactly once, in the order drawn.
\<close>

theorem C1_amended:
  assumes "valid_pool positive_samples all_samples tid_positive"
  shows "candidate_pairs positive_samples all_samples tid_positive =
           List.product positive_samples (round_robin_interleaving all_samples tid_positive) \<and>
         (int (length (candidate_pairs positive_samples all_samples tid_positive)) < num_samples \<longrightarrow>
            create_training_pairs rnd positive_samples all_samples tid_positive num_samples =
              ([(WARNING, Num_samples_greater_than_total num_samples
                   (length (candidate_pairs positive_samples all_samples tid_positive)))],
               Inr (candidate_pairs positive_samples all_samples tid_positive))) \<and>
         (num_samples = int (length (candidate_pairs positive_samples all_samples tid_positive)) \<longrightarrow>
            (\<exists>ps. create_training_pairs rnd positive_samples all_samples tid_positive num_samples =
                    ([], Inr ps) \<and>
                  mset ps = mset (candidate_pairs positive_samples all_samples tid_positive)))"
proof -
  define pairs where "pairs = candidate_pairs positive_samples all_samples tid_positive"
  have eq: "create_training_pairs rnd positive_samples all_samples tid_positive num_samples =
         (if num_samples < 0 then ([(WARNING, Num_samples_is_negative num_samples)], Inr [])
          else if num_samples \<le> int (length pairs)
          then ([], Inr (map (nth pairs) (sample_positions rnd (length pairs) (nat num_samples))))
          else ([(WARNING, Num_samples_greater_than_total num_samples (length pairs))], Inr pairs))"
    unfolding pairs_def create_training_pairs_valid[OF assms] by (simp only: Let_def)
  have A: "pairs = List.product positive_samples (round_robin_interleaving all_samples tid_positive)"
    unfolding pairs_def using assms by (rule candidate_pairs_round_robin)
  have B: "create_training_pairs rnd positive_samples all_samples tid_positive num_samples =
      ([(WARNING, Num_samples_greater_than_total num_samples (length pairs))], Inr pairs)"
    if "int (length pairs) < num_samples"
    using that by (simp add: eq)
  have C: "\<exists>ps. create_training_pairs rnd positive_samples all_samples tid_positive num_samples =
      ([], Inr ps) \<and> mset ps = mset pairs"
    if n: "num_samples = int (length pairs)"
  proof -
    have "mset (sample_positions rnd (length pairs) (length pairs)) = mset [0..<length pairs]"
      by (rule sample_positions_props(4)) simp_all
    then have "mset (map (nth pairs) (sample_positions rnd (length pairs) (length pairs))) =
               mset (map (nth pairs) [0..<length pairs])"
      by (simp only: mset_map)
    then have "mset (map (nth pairs) (sample_positions rnd (length pairs) (length pairs))) = mset pairs"
      by (simp only: map_nth)
    moreover have "create_training_pairs rnd positive_samples all_samples tid_positive num_samples =
        ([], Inr (map (nth pairs) (sample_positions rnd (length pairs) (length pairs))))"
      unfolding eq using n by simp
    ultimately show ?thesis by blast
  qed
  from A B C show ?thesis unfolding pairs_def by blast
qed

text \<open>
  The amended C1 on the worked example: the count 100 returns the six candidates as
  enumerated, the count 6 returns a permutation of them.
\<close>

theorem C1_amended_witness:
  "valid_pool [''p1'', ''p2''] example_pool 1 \<and>
   snd (create_training_pairs Suc [''p1'', ''p2''] example_pool 1 100) =
     Inr [(''p1'', ''n1''), (''p1'', ''n2''), (''p1'', ''n3''),
          (''p2'', ''n1''), (''p2'', ''n2''), (''p2'', ''n3'')] \<and>
   (\<exists>ps. create_training_pairs Suc [''p1'', ''p2''] example_pool 1 6 = ([], Inr ps) \<and>
      mset ps = mset [(''p1'', ''n1''), (''p1'', ''n2''), (''p1'', ''n3''),
                      (''p2'', ''n1''), (''p2'', ''n2''), (''p2'', ''n3'')])"
proof -
  note big = C1_amended [OF example_pool_valid, of 100 Suc, unfolded example_pool_candidates,
      THEN conjunct2, THEN conjunct1]
  note all = C1_amended [OF example_pool_valid, of 6 Suc, unfolded example_pool_candidates,
      THEN conjunct2, THEN conjunct2]
  from big have "snd (create_training_pairs Suc [''p1'', ''p2''] example_pool 1 100) =
     Inr [(''p1'', ''n1''), (''p1'', ''n2''), (''p1'', ''n3''),
          (''p2'', ''n1''), (''p2'', ''n2''), (''p2'', ''n3'')]"
    by simp
  moreover from all have
    "\<exists>ps. create_training_pairs Suc [''p1'', ''p2''] example_pool 1 6 = ([], Inr ps) \<and>
      mset ps = mset [(''p1'', ''n1''), (''p1'', ''n2''), (''p1'', ''n3''),
                      (''p2'', ''n1''), (''p2'', ''n2''), (''p2'', ''n3'')]"
    by simp
  ultimately show ?thesis
    using example_pool_valid by blast
qed

text \<open>
  C1 as stated fails when \<open>num_samples\<close> equals the number of candidates: with the pool
  \<open>{1: [p1, p2], 2: [n1]}\<close>, positive topic 1 and count 2, the enumeration is
  \<open>(p1, n1), (p2, n1)\<close>, and the draw \<open>Suc\<close> returns \<open>(p2, n1), (p1, n1)\<close>.
\<close>

theorem C1_counterexample:
  "valid_pool [''p1'', ''p2''] [(1, [''p1'', ''p2'']), (2, [''n1''])] 1 \<and>
   int (length (candidate_pairs [''p1'', ''p2''] [(1, [''p1'', ''p2'']), (2, [''n1''])] 1)) \<le> 2 \<and>
   candidate_pairs [''p1'', ''p2''] [(1, [''p1'', ''p2'']), (2, [''n1''])] 1 =
     [(''p1'', ''n1''), (''p2'', ''n1'')] \<and>
   snd (create_training_pairs Suc [''p1'', ''p2''] [(1, [''p1'', ''p2'']), (2, [''n1''])] 1 2) =
     Inr [(''p2'', ''n1''), (''p1'', ''n1'')]"
  by (simp add: valid_pool_def create_training_pairs_def candidate_pairs_def negative_lists_def
      interleaved_negatives_def all_pairs_def random_sample_def sample_step_def Let_def
      upt_conv_Cons)

subsection \<open>C3: the two errors, and success otherwise\<close>

text \<open>
  C3. With an empty positive sequence the call logs an error and raises the
  \<^verbatim>\<open>ValueError\<close> "No positive samples found". With no other topic that has a
  representation the call raises a \<^verbatim>\<open>ValueError\<close>, which is "No non-empty negative
  sample lists found" whenever the positive sequence is not empty. In every other case, for
  every \<open>num_samples\<close> of either sign, the call returns a list of candidate pairs of
  length at most \<open>num_samples\<close> and raises nothing.
\<close>

theorem C3_errors_and_success:
  "(positive_samples = [] \<longrightarrow>
      create_training_pairs rnd positive_samples all_samples tid_positive num_samples =
        ([(ERROR, No_positive_samples_found tid_positive)],
         Inl (ValueError (No_positive_samples_found tid_positive)))) \<and>
   (\<not> (\<exists>(tid, negs) \<in> set all_samples. tid \<noteq> tid_positive \<and> negs \<noteq> []) \<longrightarrow>
      (\<exists>m. snd (create_training_pairs rnd positive_samples all_samples tid_positive num_samples) =
         Inl (ValueError m)) \<and>
      (positive_samples \<noteq> [] \<longrightarrow>
         create_training_pairs rnd positive_samples all_samples tid_positive num_samples =
           ([(ERROR, No_non_empty_negative_sample_lists_found tid_positive)],
            Inl (ValueError (No_non_empty_negative_sample_lists_found tid_positive))))) \<and>
   (positive_samples \<noteq> [] \<and>
    (\<exists>(tid, negs) \<in> set all_samples. tid \<noteq> tid_positive \<and> negs \<noteq> []) \<longrightarrow>
      (\<exists>ps. snd (create_training_pairs rnd positive_samples all_samples tid_positive num_samples) =
         Inr ps \<and>
         set ps \<subseteq> set (candidate_pairs positive_samples all_samples tid_positive) \<and>
         length ps \<le> nat num_samples))"
proof (intro conjI impI)
  assume "positive_samples = []"
  then show "create_training_pairs rnd positive_samples all_samples tid_positive num_samples =
        ([(ERROR, No_positive_samples_found tid_positive)],
         Inl (ValueError (No_positive_samples_found tid_positive)))"
    by (simp add: create_training_pairs_no_positive)
next
  assume nn: "\<not> (\<exists>(tid, negs) \<in> set all_samples. tid \<noteq> tid_positive \<and> negs \<noteq> [])"
  show "\<exists>m. snd (create_training_pairs rnd positive_samples all_samples tid_positive num_samples) =
         Inl (ValueError m)"
  proof (cases "positive_samples = []")
    case True
    then show ?thesis by (simp add: create_training_pairs_no_positive)
  next
    case False
    then show ?thesis using nn by (simp add: create_training_pairs_no_negative)
  qed
next
  assume "\<not> (\<exists>(tid, negs) \<in> set all_samples. tid \<noteq> tid_positive \<and> negs \<noteq> [])"
    and "positive_samples \<noteq> []"
  then show "create_training_pairs rnd positive_samples all_samples tid_positive num_samples =
           ([(ERROR, No_non_empty_negative_sample_lists_found tid_positive)],
            Inl (ValueError (No_non_empty_negative_sample_lists_found tid_positive)))"
    by (simp add: create_training_pairs_no_negative)
next
  assume "positive_samples \<noteq> [] \<and>
    (\<exists>(tid, negs) \<in> set all_samples. tid \<noteq> tid_positive \<and> negs \<noteq> [])"
  then have v: "valid_pool positive_samples all_samples tid_positive"
    by (simp add: valid_pool_def)
  define pairs where "pairs = candidate_pairs positive_samples all_samples tid_positive"
  define ps where "ps =
    (if num_samples < 0 then []
     else if num_samples \<le> int (length pairs)
     then map (nth pairs) (sample_positions rnd (length pairs) (nat num_samples))
     else pairs)"
  have r: "snd (create_training_pairs rnd positive_samples all_samples tid_positive num_samples) = Inr ps"
    unfolding create_training_pairs_valid[OF v] pairs_def[symmetric] ps_def
    by (simp add: Let_def)
  then have "set ps \<subseteq> set pairs"
    unfolding pairs_def by (rule create_training_pairs_subset)
  moreover have "length ps \<le> nat num_samples"
  proof (cases "0 \<le> num_samples \<and> num_samples \<le> int (length pairs)")
    case True
    then have "nat num_samples \<le> length pairs" by linarith
    then have "length (sample_positions rnd (length pairs) (nat num_samples)) = nat num_samples"
      by (rule sample_positions_props(1))
    with True show ?thesis by (simp add: ps_def)
  next
    case False
    then show ?thesis by (auto simp: ps_def)
  qed
  ultimately show "\<exists>ps. snd (create_training_pairs rnd positive_samples all_samples tid_positive num_samples) =
         Inr ps \<and>
         set ps \<subseteq> set (candidate_pairs positive_samples all_samples tid_positive) \<and>
         length ps \<le> nat num_samples"
    using r unfolding pairs_def by blast
qed

text \<open>
  The three branches of C3 on concrete calls: an empty positive sequence, a pool whose only
  other topic is empty, and the worked example with the count 4.
\<close>

theorem C3_errors_and_success_witness:
  "create_training_pairs Suc [] example_pool 1 4 =
     ([(ERROR, No_positive_samples_found 1)], Inl (ValueError (No_positive_samples_found 1))) \<and>
   create_training_pairs Suc [''p1'', ''p2''] [(1, [''p1'', ''p2'']), (2, [])] 1 4 =
     ([(ERROR, No_non_empty_negative_sample_lists_found 1)],
      Inl (ValueError (No_non_empty_negative_sample_lists_found 1))) \<and>
   (\<exists>ps. snd (create_training_pairs Suc [''p1'', ''p2''] example_pool 1 4) = Inr ps \<and>
      set ps \<subseteq> set (candidate_pairs [''p1'', ''p2''] example_pool 1) \<and> length ps \<le> 4)"
proof -
  have "create_training_pairs Suc [] example_pool 1 4 =
     ([(ERROR, No_positive_samples_found 1)], Inl (ValueError (No_positive_samples_found 1)))"
    using C3_errors_and_success [of "[]" Suc example_pool 1 4] by simp
  moreover have "create_training_pairs Suc [''p1'', ''p2''] [(1, [''p1'', ''p2'']), (2, [])] 1 4 =
     ([(ERROR, No_non_empty_negative_sample_lists_found 1)],
      Inl (ValueError (No_non_empty_negative_sample_lists_found 1)))"
    using C3_errors_and_success [of "[''p1'', ''p2'']" Suc "[(1, [''p1'', ''p2'']), (2, [])]" 1 4]
    by simp
  moreover have "\<exists>ps. snd (create_training_pairs Suc [''p1'', ''p2''] example_pool 1 4) = Inr ps \<and>
      set ps \<subseteq> set (candidate_pairs [''p1'', ''p2''] example_pool 1) \<and> length ps \<le> 4"
  proof -
    have "\<exists>(tid, negs) \<in> set example_pool. tid \<noteq> 1 \<and> negs \<noteq> []"
      by (simp add: example_pool_def)
    then show ?thesis
      using C3_errors_and_success [of "[''p1'', ''p2'']" Suc example_pool 1 4,
          THEN conjunct2, THEN conjunct2]
      by simp
  qed
  ultimately show ?thesis by blast
qed

subsection \<open>C2: the interleaved negatives are the round-robin merge\<close>

text \<open>
  C2. Whenever the negative sequence is built (some topic other than the positive one has a
  representation), it is the round-robin interleaving of the non-empty sequences of the other
  topics: round \<open>i = 0, 1, 2, \<dots>\<close> visits the contributing topics in the iteration order
  of the pool and appends the element at index \<open>i\<close> of each one that has it, until every
  sequence is exhausted. \<open>round_robin_interleaving\<close> is written from these words,
  \<open>interleaved_negatives\<close> from the loops of the source. For three negative topics A with
  3 items, B with 1 item and C with 2 items the order is A0, B0, C0, A1, C1, A2.
\<close>

theorem C2_round_robin:
  "(negative_lists all_samples tid_positive \<noteq> [] \<longrightarrow>
      interleaved_negatives (negative_lists all_samples tid_positive) =
        Inr (round_robin_interleaving all_samples tid_positive)) \<and>
   (ta \<noteq> tid_positive \<and> tb \<noteq> tid_positive \<and> tc \<noteq> tid_positive \<longrightarrow>
      interleaved_negatives
        (negative_lists [(ta, [a0, a1, a2]), (tb, [b0]), (tc, [c0, c1])] tid_positive) =
        Inr [a0, b0, c0, a1, c1, a2])"
proof (intro conjI impI)
  assume "negative_lists all_samples tid_positive \<noteq> []"
  then show "interleaved_negatives (negative_lists all_samples tid_positive) =
        Inr (round_robin_interleaving all_samples tid_positive)"
    unfolding round_robin_interleaving_def negative_lists_filter[symmetric]
    by (rule interleaved_negatives_round_robin)
next
  assume "ta \<noteq> tid_positive \<and> tb \<noteq> tid_positive \<and> tc \<noteq> tid_positive"
  then have "negative_lists [(ta, [a0, a1, a2]), (tb, [b0]), (tc, [c0, c1])] tid_positive =
    [[a0, a1, a2], [b0], [c0, c1]]"
    by (simp add: negative_lists_def)
  moreover have "interleaved_negatives [[a0, a1, a2], [b0], [c0, c1]] = Inr [a0, b0, c0, a1, c1, a2]"
    by (simp add: interleaved_negatives_def upt_conv_Cons)
  ultimately show "interleaved_negatives
        (negative_lists [(ta, [a0, a1, a2]), (tb, [b0]), (tc, [c0, c1])] tid_positive) =
        Inr [a0, b0, c0, a1, c1, a2]"
    by (simp only:)
qed

text \<open>
  C2 on the worked example and on the three topics A, B, C.
\<close>

theorem C2_round_robin_witness:
  "negative_lists example_pool 1 \<noteq> [] \<and>
   interleaved_negatives (negative_lists example_pool 1) = Inr [''n1'', ''n2'', ''n3''] \<and>
   round_robin_interleaving example_pool 1 = [''n1'', ''n2'', ''n3''] \<and>
   interleaved_negatives
     (negative_lists [(2, [''A0'', ''A1'', ''A2'']), (3, [''B0'']), (4, [''C0'', ''C1''])] 1) =
     Inr [''A0'', ''B0'', ''C0'', ''A1'', ''C1'', ''A2'']"
proof -
  have ne: "negative_lists example_pool 1 \<noteq> []"
    by (simp add: negative_lists_def example_pool_def)
  have v: "interleaved_negatives (negative_lists example_pool 1) = Inr [''n1'', ''n2'', ''n3'']"
    by (simp add: negative_lists_def example_pool_def interleaved_negatives_def upt_conv_Cons)
  have "interleaved_negatives (negative_lists example_pool 1) =
        Inr (round_robin_interleaving example_pool 1)"
    using C2_round_robin [of example_pool 1, THEN conjunct1] ne by simp
  with v have "round_robin_interleaving example_pool 1 = [''n1'', ''n2'', ''n3'']"
    by simp
  moreover have "interleaved_negatives
     (negative_lists [(2, [''A0'', ''A1'', ''A2'']), (3, [''B0'']), (4, [''C0'', ''C1''])] 1) =
     Inr [''A0'', ''B0'', ''C0'', ''A1'', ''C1'', ''A2'']"
    using C2_round_robin [of _ 1 2 3 4 "''A0''" "''A1''" "''A2''" "''B0''" "''C0''" "''C1''",
        THEN conjunct2]
    by simp
  ultimately show ?thesis using ne v by blast
qed

subsection \<open>C4: a count within the number of candidates\<close>

text \<open>
  C4. For every valid pool and every \<open>num_samples\<close> from 0 to the number of candidate
  pairs, the call raises nothing, logs nothing and returns a list of exactly
  \<open>num_samples\<close> pairs, which are the candidates at pairwise different positions of the
  candidate enumeration.
\<close>

theorem C4_bound_respected:
  assumes "valid_pool positive_samples all_samples tid_positive"
    and "0 \<le> num_samples"
    and "num_samples \<le> int (length (candidate_pairs positive_samples all_samples tid_positive))"
  shows "\<exists>ps idxs.
           create_training_pairs rnd positive_samples all_samples tid_positive num_samples =
             ([], Inr ps) \<and>
           int (length ps) = num_samples \<and>
           ps = map (nth (candidate_pairs positive_samples all_samples tid_positive)) idxs \<and>
           distinct idxs \<and>
           (\<forall>i \<in> set idxs. i < length (candidate_pairs positive_samples all_samples tid_positive))"
proof -
  define pairs where "pairs = candidate_pairs positive_samples all_samples tid_positive"
  define idxs where "idxs = sample_positions rnd (length pairs) (nat num_samples)"
  have k: "nat num_samples \<le> length pairs"
    using assms(2,3) unfolding pairs_def by linarith
  have "create_training_pairs rnd positive_samples all_samples tid_positive num_samples =
          ([], Inr (map (nth pairs) idxs))"
    unfolding create_training_pairs_valid[OF assms(1)] pairs_def[symmetric] idxs_def
    using assms(2,3) by (simp add: Let_def pairs_def)
  moreover have "length idxs = nat num_samples"
    unfolding idxs_def using k by (rule sample_positions_props(1))
  then have "int (length (map (nth pairs) idxs)) = num_samples"
    using assms(2) by simp
  moreover have "distinct idxs"
    unfolding idxs_def using k by (rule sample_positions_props(2))
  moreover have "set idxs \<subseteq> {..<length pairs}"
    unfolding idxs_def using k by (rule sample_positions_props(3))
  then have "\<forall>i \<in> set idxs. i < length pairs" by auto
  ultimately show ?thesis unfolding pairs_def by blast
qed

text \<open>
  C4 on the worked example with the count 4.
\<close>

theorem C4_bound_respected_witness:
  "valid_pool [''p1'', ''p2''] example_pool 1 \<and>
   (0::int) \<le> 4 \<and> 4 \<le> int (length (candidate_pairs [''p1'', ''p2''] example_pool 1)) \<and>
   (\<exists>ps idxs. create_training_pairs Suc [''p1'', ''p2''] example_pool 1 4 = ([], Inr ps) \<and>
      int (length ps) = 4 \<and>
      ps = map (nth (candidate_pairs [''p1'', ''p2''] example_pool 1)) idxs \<and>
      distinct idxs \<and>
      (\<forall>i \<in> set idxs. i < length (candidate_pairs [''p1'', ''p2''] example_pool 1)))"
proof -
  have le: "4 \<le> int (length (candidate_pairs [''p1'', ''p2''] example_pool 1))"
    by (simp add: example_pool_candidates)
  show ?thesis
    using example_pool_valid le C4_bound_respected [OF example_pool_valid _ le, of Suc]
    by simp
qed

subsection \<open>C5: a count above the number of candidates\<close>

text \<open>
  C5. For every valid pool and every \<open>num_samples\<close> strictly greater than the number of
  candidate pairs, the call returns the candidate enumeration itself, so every candidate
  position exactly once. Its length is the number of positive representations times the
  number of representations of the other topics, and it has no duplicate pair when the
  positive sequence and the sequences of the other topics have no duplicate string.
\<close>

theorem C5_oversubscription:
  assumes "valid_pool positive_samples all_samples tid_positive"
    and "int (length (candidate_pairs positive_samples all_samples tid_positive)) < num_samples"
  shows "snd (create_training_pairs rnd positive_samples all_samples tid_positive num_samples) =
           Inr (candidate_pairs positive_samples all_samples tid_positive) \<and>
         length (candidate_pairs positive_samples all_samples tid_positive) =
           length positive_samples * length (concat (negative_lists all_samples tid_positive)) \<and>
         (distinct positive_samples \<and> distinct (concat (negative_lists all_samples tid_positive)) \<longrightarrow>
            distinct (candidate_pairs positive_samples all_samples tid_positive))"
proof -
  define pairs where "pairs = candidate_pairs positive_samples all_samples tid_positive"
  obtain negatives where n: "pairs = List.product positive_samples negatives"
    "mset negatives = mset (concat (negative_lists all_samples tid_positive))"
    unfolding pairs_def using candidate_pairs_mset[OF assms(1)] by blast
  have "snd (create_training_pairs rnd positive_samples all_samples tid_positive num_samples) = Inr pairs"
    unfolding create_training_pairs_valid[OF assms(1)] pairs_def[symmetric]
    using assms(2) by (simp add: Let_def pairs_def)
  moreover have "length negatives = length (concat (negative_lists all_samples tid_positive))"
    using n(2) by (rule mset_eq_length)
  then have "length pairs =
      length positive_samples * length (concat (negative_lists all_samples tid_positive))"
    using n(1) by (simp only: length_product)
  moreover have "distinct pairs"
    if "distinct positive_samples \<and> distinct (concat (negative_lists all_samples tid_positive))"
  proof -
    have "distinct negatives"
      using n(2) that by (metis mset_eq_imp_distinct_iff)
    with that show ?thesis unfolding n(1) by (simp add: distinct_product)
  qed
  ultimately show ?thesis unfolding pairs_def by blast
qed

text \<open>
  C5 on the worked example with the count 100.
\<close>

theorem C5_oversubscription_witness:
  "valid_pool [''p1'', ''p2''] example_pool 1 \<and>
   int (length (candidate_pairs [''p1'', ''p2''] example_pool 1)) < 100 \<and>
   snd (create_training_pairs Suc [''p1'', ''p2''] example_pool 1 100) =
     Inr [(''p1'', ''n1''), (''p1'', ''n2''), (''p1'', ''n3''),
          (''p2'', ''n1''), (''p2'', ''n2''), (''p2'', ''n3'')] \<and>
   distinct (candidate_pairs [''p1'', ''p2''] example_pool 1)"
proof -
  have lt: "int (length (candidate_pairs [''p1'', ''p2''] example_pool 1)) < 100"
    by (simp add: example_pool_candidates)
  have d: "distinct [''p1'', ''p2''] \<and> distinct (concat (negative_lists example_pool 1))"
    by (simp add: negative_lists_def example_pool_def)
  note t = C5_oversubscription [OF example_pool_valid lt, of Suc]
  from t have "snd (create_training_pairs Suc [''p1'', ''p2''] example_pool 1 100) =
     Inr [(''p1'', ''n1''), (''p1'', ''n2''), (''p1'', ''n3''),
          (''p2'', ''n1''), (''p2'', ''n2''), (''p2'', ''n3'')]"
    by (simp only: example_pool_candidates)
  moreover from t d have "distinct (candidate_pairs [''p1'', ''p2''] example_pool 1)"
    by blast
  ultimately show ?thesis using example_pool_valid lt by blast
qed

subsection \<open>C6: where the two texts of a pair come from\<close>

text \<open>
  C6, the amended claim. In every pair that the call returns, the positive text is a member
  of the positive sequence and the negative text is a member of the sequence of some topic
  whose id is not the positive id. The negative text is not a member of the positive sequence
  whenever no sequence of another topic shares a string with the positive sequence.
\<close>

theorem C6_topic_isolation:
  assumes "snd (create_training_pairs rnd positive_samples all_samples tid_positive num_samples) = Inr ps"
    and "(positive_text, negative_text) \<in> set ps"
  shows "positive_text \<in> set positive_samples \<and>
         (\<exists>(tid, negs) \<in> set all_samples. tid \<noteq> tid_positive \<and> negative_text \<in> set negs) \<and>
         ((\<forall>(tid, negs) \<in> set all_samples.
             tid \<noteq> tid_positive \<longrightarrow> set negs \<inter> set positive_samples = {}) \<longrightarrow>
          negative_text \<notin> set positive_samples)"
proof -
  have v: "valid_pool positive_samples all_samples tid_positive"
    using assms(1) by (rule create_training_pairs_Inr_valid)
  have "set ps \<subseteq> set (candidate_pairs positive_samples all_samples tid_positive)"
    using assms(1) by (rule create_training_pairs_subset)
  with assms(2) have "(positive_text, negative_text) \<in>
      set positive_samples \<times> \<Union> (set ` set (negative_lists all_samples tid_positive))"
    unfolding set_candidate_pairs[OF v] by blast
  then have p: "positive_text \<in> set positive_samples"
    and "\<exists>negs \<in> set (negative_lists all_samples tid_positive). negative_text \<in> set negs"
    by auto
  then obtain tid negs where n: "(tid, negs) \<in> set all_samples" "tid \<noteq> tid_positive"
    "negative_text \<in> set negs"
    unfolding set_negative_lists by blast
  then have e: "\<exists>(tid, negs) \<in> set all_samples. tid \<noteq> tid_positive \<and> negative_text \<in> set negs"
    by blast
  have "negative_text \<notin> set positive_samples"
    if "\<forall>(tid, negs) \<in> set all_samples.
             tid \<noteq> tid_positive \<longrightarrow> set negs \<inter> set positive_samples = {}"
    using that n by blast
  with p e show ?thesis by blast
qed

text \<open>
  The amended C6 on the worked example with the count 4, at the returned pair
  \<open>(p2, n1)\<close>.
\<close>

theorem C6_topic_isolation_witness:
  "snd (create_training_pairs Suc [''p1'', ''p2''] example_pool 1 4) =
     Inr [(''p1'', ''n2''), (''p1'', ''n3''), (''p2'', ''n1''), (''p2'', ''n3'')] \<and>
   (''p2'', ''n1'') \<in> set [(''p1'', ''n2''), (''p1'', ''n3''), (''p2'', ''n1''), (''p2'', ''n3'')] \<and>
   set [''n1''] \<inter> set [''p1'', ''p2''] = {} \<and>
   set [''n2'', ''n3''] \<inter> set [''p1'', ''p2''] = {} \<and>
   ''p2'' \<in> set [''p1'', ''p2''] \<and>
   (\<exists>(tid, negs) \<in> set example_pool. tid \<noteq> 1 \<and> ''n1'' \<in> set negs) \<and>
   ''n1'' \<notin> set [''p1'', ''p2'']"
proof -
  have r: "snd (create_training_pairs Suc [''p1'', ''p2''] example_pool 1 4) =
     Inr [(''p1'', ''n2''), (''p1'', ''n3''), (''p2'', ''n1''), (''p2'', ''n3'')]"
    by (simp add: example_pool_sample_4)
  have m: "(''p2'', ''n1'') \<in> set [(''p1'', ''n2''), (''p1'', ''n3''), (''p2'', ''n1''), (''p2'', ''n3'')]"
    by simp
  have d: "\<forall>(tid, negs) \<in> set example_pool. tid \<noteq> 1 \<longrightarrow> set negs \<inter> set [''p1'', ''p2''] = {}"
    by (simp add: example_pool_def)
  have e: "set [''n1''] \<inter> set [''p1'', ''p2''] = {}"
    "set [''n2'', ''n3''] \<inter> set [''p1'', ''p2''] = {}"
    by simp_all
  from C6_topic_isolation [OF r m] d r m e show ?thesis by blast
qed

text \<open>
  C6 as stated fails when a string occurs in the positive sequence and in the sequence of
  another topic: with the pool \<open>{1: [a], 2: [a]}\<close>, positive topic 1 and count 1, the call
  returns the pair \<open>(a, a)\<close>, whose negative text is a member of the sequence of topic 1.
\<close>

theorem C6_counterexample:
  "snd (create_training_pairs Suc [''a''] [(1, [''a'']), (2, [''a''])] 1 1) = Inr [(''a'', ''a'')] \<and>
   map_of [(1 :: int, [''a'']), (2, [''a''])] 1 = Some [''a''] \<and>
   snd (''a'', ''a'') \<in> set [''a'']"
  by (simp add: create_training_pairs_def negative_lists_def interleaved_negatives_def
      all_pairs_def random_sample_def sample_step_def Let_def)

subsection \<open>C7: a negative count on a valid pool\<close>

text \<open>
  C7. For every valid pool and every negative \<open>num_samples\<close> the call raises nothing: it
  logs one warning and returns the empty list.
\<close>

theorem C7_negative_count:
  assumes "valid_pool positive_samples all_samples tid_positive"
    and "num_samples < 0"
  shows "create_training_pairs rnd positive_samples all_samples tid_positive num_samples =
           ([(WARNING, Num_samples_is_negative num_samples)], Inr [])"
  unfolding create_training_pairs_valid[OF assms(1)] using assms(2) by (simp add: Let_def)

text \<open>
  C7 on the worked example with the count \<open>-5\<close>.
\<close>

theorem C7_negative_count_witness:
  "valid_pool [''p1'', ''p2''] example_pool 1 \<and> (-5 :: int) < 0 \<and>
   create_training_pairs Suc [''p1'', ''p2''] example_pool 1 (-5) =
     ([(WARNING, Num_samples_is_negative (-5))], Inr [])"
  using example_pool_valid C7_negative_count [OF example_pool_valid, of "-5" Suc] by simp

subsection \<open>C9: the check of the positive sequence comes first\<close>

text \<open>
  C9. When the positive sequence is empty and no other topic has a representation, the call
  raises the error "No positive samples found", not "No non-empty negative sample lists
  found".
\<close>

theorem C9_positive_check_first:
  assumes "positive_samples = []"
    and "\<not> (\<exists>(tid, negs) \<in> set all_samples. tid \<noteq> tid_positive \<and> negs \<noteq> [])"
  shows "create_training_pairs rnd positive_samples all_samples tid_positive num_samples =
           ([(ERROR, No_positive_samples_found tid_positive)],
            Inl (ValueError (No_positive_samples_found tid_positive))) \<and>
         snd (create_training_pairs rnd positive_samples all_samples tid_positive num_samples) \<noteq>
           Inl (ValueError (No_non_empty_negative_sample_lists_found tid_positive))"
  using assms(1) by (simp add: create_training_pairs_no_positive)

text \<open>
  C9 on the pool \<open>{1: [], 2: []}\<close>.
\<close>

theorem C9_positive_check_first_witness:
  "\<not> (\<exists>(tid, negs) \<in> set [(1 :: int, [] :: string list), (2, [])]. tid \<noteq> 1 \<and> negs \<noteq> []) \<and>
   create_training_pairs Suc [] [(1, []), (2, [])] 1 3 =
     ([(ERROR, No_positive_samples_found 1)], Inl (ValueError (No_positive_samples_found 1)))"
proof -
  have n: "\<not> (\<exists>(tid, negs) \<in> set [(1 :: int, [] :: string list), (2, [])]. tid \<noteq> 1 \<and> negs \<noteq> [])"
    by simp
  from C9_positive_check_first [OF refl n, of Suc 3] n show ?thesis by blast
qed

subsection \<open>C10: the emptiness checks come before the sign check\<close>

text \<open>
  C10. With a negative \<open>num_samples\<close> and an empty positive sequence, or a non-empty
  positive sequence and no other topic with a representation, the call raises the
  corresponding error; on a pool that is not valid it never returns the empty list.
\<close>

theorem C10_checks_before_sign:
  assumes "num_samples < 0"
  shows "(positive_samples = [] \<longrightarrow>
            create_training_pairs rnd positive_samples all_samples tid_positive num_samples =
              ([(ERROR, No_positive_samples_found tid_positive)],
               Inl (ValueError (No_positive_samples_found tid_positive)))) \<and>
         (positive_samples \<noteq> [] \<and>
          \<not> (\<exists>(tid, negs) \<in> set all_samples. tid \<noteq> tid_positive \<and> negs \<noteq> []) \<longrightarrow>
            create_training_pairs rnd positive_samples all_samples tid_positive num_samples =
              ([(ERROR, No_non_empty_negative_sample_lists_found tid_positive)],
               Inl (ValueError (No_non_empty_negative_sample_lists_found tid_positive)))) \<and>
         (\<not> valid_pool positive_samples all_samples tid_positive \<longrightarrow>
            snd (create_training_pairs rnd positive_samples all_samples tid_positive num_samples) \<noteq>
              Inr [])"
proof (intro conjI impI)
  assume "positive_samples = []"
  then show "create_training_pairs rnd positive_samples all_samples tid_positive num_samples =
              ([(ERROR, No_positive_samples_found tid_positive)],
               Inl (ValueError (No_positive_samples_found tid_positive)))"
    by (simp add: create_training_pairs_no_positive)
next
  assume "positive_samples \<noteq> [] \<and>
          \<not> (\<exists>(tid, negs) \<in> set all_samples. tid \<noteq> tid_positive \<and> negs \<noteq> [])"
  then show "create_training_pairs rnd positive_samples all_samples tid_positive num_samples =
              ([(ERROR, No_non_empty_negative_sample_lists_found tid_positive)],
               Inl (ValueError (No_non_empty_negative_sample_lists_found tid_positive)))"
    by (simp add: create_training_pairs_no_negative)
next
  assume "\<not> valid_pool positive_samples all_samples tid_positive"
  then show "snd (create_training_pairs rnd positive_samples all_samples tid_positive num_samples) \<noteq>
              Inr []"
    using create_training_pairs_Inr_valid by blast
qed

text \<open>
  C10 with the count \<open>-5\<close> on an empty positive sequence and on a pool whose only other
  topic is empty.
\<close>

theorem C10_checks_before_sign_witness:
  "(-5 :: int) < 0 \<and>
   create_training_pairs Suc [] example_pool 1 (-5) =
     ([(ERROR, No_positive_samples_found 1)], Inl (ValueError (No_positive_samples_found 1))) \<and>
   create_training_pairs Suc [''p1'', ''p2''] [(1, [''p1'', ''p2'']), (2, [])] 1 (-5) =
     ([(ERROR, No_non_empty_negative_sample_lists_found 1)],
      Inl (ValueError (No_non_empty_negative_sample_lists_found 1)))"
proof -
  have n: "(-5 :: int) < 0" by simp
  have "create_training_pairs Suc [] example_pool 1 (-5) =
     ([(ERROR, No_positive_samples_found 1)], Inl (ValueError (No_positive_samples_found 1)))"
    using C10_checks_before_sign [OF n, of "[]" Suc example_pool 1] by simp
  moreover have "create_training_pairs Suc [''p1'', ''p2''] [(1, [''p1'', ''p2'']), (2, [])] 1 (-5) =
     ([(ERROR, No_non_empty_negative_sample_lists_found 1)],
      Inl (ValueError (No_non_empty_negative_sample_lists_found 1)))"
    using C10_checks_before_sign [OF n, of "[''p1'', ''p2'']" Suc "[(1, [''p1'', ''p2'']), (2, [])]" 1]
    by simp
  ultimately show ?thesis by simp
qed

subsection \<open>The two embeddings agree\<close>

text \<open>
  On a store that holds the positive sequence and the pool, the call on the store raises the
  error that the call on lists raises, or returns the address of a list object that holds
  the pairs that the call on lists returns.
\<close>

lemma update_same: "t ! a = x \<Longrightarrow> t[a := x] = t"
  by auto

lemma list_append_at:
  "a < length t \<Longrightarrow> t ! a = PyList acc \<Longrightarrow> list_append t a v = t[a := PyList (acc @ [v])]"
  by (simp add: list_append_def)

lemma elems_at: "a < length t \<Longrightarrow> t ! a = PyList vs \<Longrightarrow> elems t a = vs"
  by (simp add: elems_def)

lemma interleave_inner_fold:
  assumes "length bs = length negs"
    and "\<forall>(b, xs) \<in> set (zip bs negs). b \<noteq> I \<and> b < length t \<and> t ! b = PyList (map Str xs)"
    and "I < length t" "t ! I = PyList acc"
  shows "fold (interleave_inner I i) (map Ref bs) t =
         t[I := PyList (acc @ map Str (round_at i negs))]"
  using assms
proof (induction bs negs arbitrary: t acc rule: list_induct2)
  case Nil
  have "t[I := PyList acc] = t"
    using Nil(3) by (rule update_same)
  then show ?case by (simp add: round_at_def)
next
  case (Cons b bs xs negs)
  have b: "b \<noteq> I" "b < length t" "t ! b = PyList (map Str xs)"
    using Cons.prems(1) by simp_all
  have rest: "\<forall>(b, xs) \<in> set (zip bs negs). b \<noteq> I \<and> b < length t \<and> t ! b = PyList (map Str xs)"
    using Cons.prems(1) by simp
  define new where "new = (if i < length xs then [Str (xs ! i)] else [])"
  define t' where "t' = t[I := PyList (acc @ new)]"
  have "elems t b = map Str xs"
    using b(2,3) by (rule elems_at)
  then have e: "elems_of t (Ref b) = map Str xs"
    by simp
  have step: "interleave_inner I i (Ref b) t = t'"
  proof (cases "i < length xs")
    case True
    have "list_append t I (Str (xs ! i)) = t[I := PyList (acc @ [Str (xs ! i)])]"
      using Cons.prems(2,3) by (rule list_append_at)
    with True e show ?thesis
      by (simp add: interleave_inner_def t'_def new_def)
  next
    case False
    have "t[I := PyList acc] = t"
      using Cons.prems(3) by (rule update_same)
    with False e show ?thesis
      by (simp add: interleave_inner_def t'_def new_def)
  qed
  have rel: "\<forall>(b, xs) \<in> set (zip bs negs). b \<noteq> I \<and> b < length t' \<and> t' ! b = PyList (map Str xs)"
    using rest by (auto simp: t'_def)
  have "fold (interleave_inner I i) (map Ref bs) t' =
        t'[I := PyList ((acc @ new) @ map Str (round_at i negs))]"
    using rel by (rule Cons.IH) (simp_all add: t'_def Cons.prems(2))
  then have "fold (interleave_inner I i) (map Ref bs) (interleave_inner I i (Ref b) t) =
        t[I := PyList (acc @ new @ map Str (round_at i negs))]"
    unfolding step by (simp add: t'_def)
  moreover have "map Str (round_at i (xs # negs)) = new @ map Str (round_at i negs)"
    by (simp add: round_Cons new_def)
  ultimately show ?case
    by (simp only: list.map fold_simps)
qed

lemma interleave_outer_fold:
  assumes len: "length bs = length negs"
    and refs: "\<forall>(b, xs) \<in> set (zip bs negs). b \<noteq> I \<and> b < length t \<and> t ! b = PyList (map Str xs)"
    and N: "N < length t" "t ! N = PyList (map Ref bs)" "N \<noteq> I"
    and I: "I < length t" "t ! I = PyList acc"
  shows "fold (interleave_outer N I) [0..<M] t =
         t[I := PyList (acc @ map Str (concat (map (\<lambda>i. round_at i negs) [0..<M])))]"
proof (induction M)
  case 0
  have "t[I := PyList acc] = t"
    using I(2) by (rule update_same)
  then show ?case by simp
next
  case (Suc M)
  define acc' where "acc' = acc @ map Str (concat (map (\<lambda>i. round_at i negs) [0..<M]))"
  define t' where "t' = t[I := PyList acc']"
  have IH: "fold (interleave_outer N I) [0..<M] t = t'"
    using Suc by (simp add: t'_def acc'_def)
  have "N < length t'" "t' ! N = PyList (map Ref bs)"
    using N by (simp_all add: t'_def)
  then have e: "elems t' N = map Ref bs"
    by (rule elems_at)
  have rel: "\<forall>(b, xs) \<in> set (zip bs negs). b \<noteq> I \<and> b < length t' \<and> t' ! b = PyList (map Str xs)"
    using refs by (auto simp: t'_def)
  have "fold (interleave_inner I M) (map Ref bs) t' =
        t'[I := PyList (acc' @ map Str (round_at M negs))]"
    using len rel by (rule interleave_inner_fold) (simp_all add: t'_def I)
  then have "interleave_outer N I M t' = t'[I := PyList (acc' @ map Str (round_at M negs))]"
    by (simp only: interleave_outer_def e)
  then have step: "interleave_outer N I M t' = t[I := PyList (acc' @ map Str (round_at M negs))]"
    by (simp add: t'_def)
  have "fold (interleave_outer N I) [0..<Suc M] t = interleave_outer N I M t'"
    using IH by simp
  then show ?case
    unfolding step by (simp add: acc'_def)
qed

lemma pairs_inner_fold:
  "P < length t \<Longrightarrow> t ! P = PyList acc \<Longrightarrow>
   fold (pairs_inner P v) ws t = t[P := PyList (acc @ map (Tuple v) ws)]"
proof (induction ws arbitrary: t acc)
  case Nil
  then show ?case by (simp add: update_same)
next
  case (Cons w ws)
  define t' where "t' = t[P := PyList (acc @ [Tuple v w])]"
  have step: "pairs_inner P v w t = t'"
    unfolding pairs_inner_def t'_def using Cons.prems by (rule list_append_at)
  have "fold (pairs_inner P v) ws t' = t'[P := PyList ((acc @ [Tuple v w]) @ map (Tuple v) ws)]"
    by (rule Cons.IH) (simp_all add: t'_def Cons.prems)
  then have "fold (pairs_inner P v) ws (pairs_inner P v w t) =
      t[P := PyList (acc @ map (Tuple v) (w # ws))]"
    unfolding step by (simp add: t'_def)
  then show ?case by (simp only: fold_simps)
qed

lemma pairs_outer_fold:
  assumes "I < length t" "t ! I = PyList (map Str negs)" "P \<noteq> I"
    and "P < length t" "t ! P = PyList acc"
  shows "fold (pairs_outer I P) (map Str pos) t =
         t[P := PyList (acc @ map tuple_of (all_pairs pos negs))]"
  using assms
proof (induction pos arbitrary: t acc)
  case Nil
  then show ?case by (simp add: all_pairs_def update_same)
next
  case (Cons p pos)
  define acc' where "acc' = acc @ map (Tuple (Str p)) (map Str negs)"
  define t' where "t' = t[P := PyList acc']"
  have e: "elems t I = map Str negs"
    using Cons.prems(1,2) by (rule elems_at)
  have "fold (pairs_inner P (Str p)) (map Str negs) t = t'"
    unfolding t'_def acc'_def using Cons.prems(4,5) by (rule pairs_inner_fold)
  then have step: "pairs_outer I P (Str p) t = t'"
    by (simp only: pairs_outer_def e)
  have rec: "fold (pairs_outer I P) (map Str pos) t' =
      t'[P := PyList (acc' @ map tuple_of (all_pairs pos negs))]"
    by (rule Cons.IH) (simp_all add: t'_def Cons.prems)
  have split: "map tuple_of (all_pairs (p # pos) negs) =
      map (Tuple (Str p)) (map Str negs) @ map tuple_of (all_pairs pos negs)"
    by (simp add: all_pairs_def tuple_of_def comp_def)
  have "fold (pairs_outer I P) (map Str (p # pos)) t = fold (pairs_outer I P) (map Str pos) t'"
    by (simp add: step)
  also have "\<dots> = t[P := PyList (acc' @ map tuple_of (all_pairs pos negs))]"
    unfolding rec by (simp add: t'_def)
  finally show ?case
    by (simp only: split acc'_def append_assoc)
qed

lemma list_set_last_but_one:
  "list_set (t @ [PyList a, ob]) (length t) i v = t @ [PyList (a[i := v]), ob]"
  by (simp add: list_set_def nth_append list_update_append)

lemma list_set_last:
  "list_set (t @ [ob, PyList a]) (Suc (length t)) i v = t @ [ob, PyList (a[i := v])]"
  by (simp add: list_set_def nth_append list_update_append)

lemma elems_last: "elems (t @ [ob, PyList a]) (Suc (length t)) = a"
  by (simp add: elems_def nth_append)

lemma fill_slot:
  "length result = i \<Longrightarrow> i < k \<Longrightarrow>
   (result @ replicate (k - i) PyNone)[i := v] = (result @ [v]) @ replicate (k - Suc i) PyNone"
proof -
  assume l: "length result = i" and i: "i < k"
  then have "k - i = Suc (k - Suc i)" by simp
  then have "replicate (k - i) PyNone = PyNone # replicate (k - Suc i) PyNone"
    by (simp only: replicate_Suc)
  then show ?thesis using l by (simp add: list_update_append)
qed

lemma sample_step_st_fold:
  assumes "k \<le> length xs" "i \<le> k"
  shows "fold (sample_step_st rnd (length xs) (Suc (length t)) (length t)) [0..<i]
           (t @ [PyList (replicate k PyNone), PyList xs]) =
         t @ [PyList (snd (fold (sample_step rnd (length xs)) [0..<i] (xs, [])) @
                      replicate (k - i) PyNone),
              PyList (fst (fold (sample_step rnd (length xs)) [0..<i] (xs, [])))]"
  using assms(2)
proof (induction i)
  case 0
  show ?case by simp
next
  case (Suc i)
  define n where "n = length xs"
  define st where "st = fold (sample_step rnd n) [0..<i] (xs, [])"
  define pool where "pool = fst st"
  define result where "result = snd st"
  define j where "j = rnd i mod (n - i)"
  define u where "u = t @ [PyList (result @ replicate (k - i) PyNone), PyList pool]"
  from Suc.prems have ik: "i < k" by simp
  then have "i \<le> length xs" using assms(1) by simp
  then have lr: "length result = i"
    using sample_fold_inv[of i xs rnd] by (simp add: result_def st_def n_def)
  have IH: "fold (sample_step_st rnd n (Suc (length t)) (length t)) [0..<i]
           (t @ [PyList (replicate k PyNone), PyList xs]) = u"
    using Suc.IH ik by (simp add: u_def result_def pool_def st_def n_def)
  have pure: "fold (sample_step rnd n) [0..<Suc i] (xs, []) =
      (pool[j := pool ! (n - i - 1)], result @ [pool ! j])"
    by (simp add: sample_step_def st_def pool_def result_def j_def Let_def)
  have e: "elems u (Suc (length t)) = pool"
    unfolding u_def by (rule elems_last)
  define u' where "u' = t @ [PyList ((result @ [pool ! j]) @ replicate (k - Suc i) PyNone), PyList pool]"
  have 1: "list_set u (length t) i (pool ! j) = u'"
    unfolding u_def u'_def by (simp only: list_set_last_but_one fill_slot[OF lr ik])
  have e': "elems u' (Suc (length t)) = pool"
    unfolding u'_def by (rule elems_last)
  have 2: "list_set u' (Suc (length t)) j (pool ! (n - i - 1)) =
      t @ [PyList ((result @ [pool ! j]) @ replicate (k - Suc i) PyNone),
           PyList (pool[j := pool ! (n - i - 1)])]"
    unfolding u'_def by (rule list_set_last)
  have "sample_step_st rnd n (Suc (length t)) (length t) i u =
      t @ [PyList ((result @ [pool ! j]) @ replicate (k - Suc i) PyNone),
           PyList (pool[j := pool ! (n - i - 1)])]"
    by (simp only: sample_step_st_def Let_def j_def[symmetric] e 1 e' 2)
  then have "fold (sample_step_st rnd n (Suc (length t)) (length t)) [0..<Suc i]
           (t @ [PyList (replicate k PyNone), PyList xs]) =
      t @ [PyList ((result @ [pool ! j]) @ replicate (k - Suc i) PyNone),
           PyList (pool[j := pool ! (n - i - 1)])]"
    using IH by simp
  then show ?case
    unfolding n_def[symmetric] pure by simp
qed

lemma random_sample_st_refines:
  assumes "P < length t" "t ! P = PyList (map f pairs)"
    and "0 \<le> k" "k \<le> int (length pairs)"
  shows "\<exists>t' r. random_sample_st rnd t P k = (t', Inr r) \<and>
           (\<exists>ps. random_sample rnd pairs k = Inr ps \<and> elems t' r = map f ps)"
proof -
  define n where "n = length pairs"
  define st where "st = fold (sample_step rnd n) [0..<nat k] (pairs, [])"
  have e: "elems t P = map f pairs"
    using assms(1,2) by (rule elems_at)
  have k: "nat k \<le> length (map f pairs)" "nat k \<le> length pairs"
    using assms(3,4) by simp_all
  have "elems (t @ [PyList (replicate (nat k) PyNone)]) P = map f pairs"
    using assms(1) e by (simp add: elems_def nth_append)
  then have run: "random_sample_st rnd t P k =
      (fold (sample_step_st rnd n (Suc (length t)) (length t)) [0..<nat k]
         (t @ [PyList (replicate (nat k) PyNone), PyList (map f pairs)]), Inr (length t))"
    using assms(3,4) by (simp add: random_sample_st_def e alloc_def Let_def n_def)
  have "fold (sample_step_st rnd n (Suc (length t)) (length t)) [0..<nat k]
         (t @ [PyList (replicate (nat k) PyNone), PyList (map f pairs)]) =
        t @ [PyList (snd (fold (sample_step rnd n) [0..<nat k] (map f pairs, [])) @
                      replicate (nat k - nat k) PyNone),
              PyList (fst (fold (sample_step rnd n) [0..<nat k] (map f pairs, [])))]"
    using sample_step_st_fold[OF k(1) order_refl, of rnd t] by (simp add: n_def)
  also have "fold (sample_step rnd n) [0..<nat k] (map f pairs, []) =
      map_prod (map f) (map f) st"
    unfolding st_def n_def using k(2) by (rule sample_fold_map)
  finally have "fold (sample_step_st rnd n (Suc (length t)) (length t)) [0..<nat k]
         (t @ [PyList (replicate (nat k) PyNone), PyList (map f pairs)]) =
        t @ [PyList (map f (snd st)), PyList (map f (fst st))]"
    by simp
  then have "random_sample_st rnd t P k =
      (t @ [PyList (map f (snd st)), PyList (map f (fst st))], Inr (length t))"
    unfolding run by simp
  moreover have "elems (t @ [PyList (map f (snd st)), PyList (map f (fst st))]) (length t) =
      map f (snd st)"
    by (simp add: elems_def nth_append)
  moreover have "random_sample rnd pairs k = Inr (snd st)"
    using assms(3,4) by (simp add: random_sample_def Let_def st_def n_def)
  ultimately show ?thesis by blast
qed

lemma negative_refs:
  assumes "list_all2 (\<lambda>entry topic. fst entry = fst topic \<and> holds_strings s (snd entry) (snd topic)) d pool"
  shows "[Ref negs. (tid, negs) \<leftarrow> d, tid \<noteq> tid_positive \<and> elems s negs \<noteq> []] =
           map Ref [negs. (tid, negs) \<leftarrow> d, tid \<noteq> tid_positive \<and> elems s negs \<noteq> []] \<and>
         length [negs. (tid, negs) \<leftarrow> d, tid \<noteq> tid_positive \<and> elems s negs \<noteq> []] =
           length (negative_lists pool tid_positive) \<and>
         (\<forall>(b, xs) \<in> set (zip [negs. (tid, negs) \<leftarrow> d, tid \<noteq> tid_positive \<and> elems s negs \<noteq> []]
                               (negative_lists pool tid_positive)).
            b < length s \<and> s ! b = PyList (map Str xs))"
  using assms
proof (induction d pool rule: list_all2_induct)
  case Nil
  show ?case by (simp add: negative_lists_def)
next
  case (Cons entry d topic pool)
  obtain tid a where entry: "entry = (tid, a)" by (cases entry)
  obtain tid' xs where topic: "topic = (tid', xs)" by (cases topic)
  from Cons.hyps(1) have t: "tid' = tid" and h: "a < length s" "s ! a = PyList (map Str xs)"
    by (simp_all add: entry topic holds_strings_def)
  have e: "elems s a = map Str xs"
    using h by (rule elems_at)
  have split: "negative_lists (topic # pool) tid_positive =
      (if tid \<noteq> tid_positive \<and> xs \<noteq> [] then [xs] else []) @ negative_lists pool tid_positive"
    by (simp add: negative_lists_def topic t)
  show ?case
    using Cons.IH h unfolding split by (simp add: entry e)
qed

lemma lengths_of_refs:
  assumes "length bs = length negs"
    and "\<forall>(b, xs) \<in> set (zip bs negs). elems t b = map Str xs"
  shows "map (\<lambda>neg_list. length (elems_of t neg_list)) (map Ref bs) = map length negs"
  using assms by (induction bs negs rule: list_induct2) simp_all

lemma interleaved_negatives_rounds_of:
  "py_max (map length negs) = Inr max_len \<Longrightarrow>
   interleaved_negatives negs = Inr (concat (map (\<lambda>i. round_at i negs) [0..<max_len]))"
  by (simp add: interleaved_negatives_def round_at_def)

lemma create_training_pairs_st_refines:
  assumes pos: "holds_strings s positive_samples pos"
    and pool: "holds_pool s all_samples pool"
  shows "\<exists>s' r. create_training_pairs_st rnd s positive_samples all_samples tid_positive num_samples =
             (s', r) \<and>
           (case r of
              Inl e \<Rightarrow>
                snd (create_training_pairs rnd pos pool tid_positive num_samples) = Inl e
            | Inr a \<Rightarrow>
                \<exists>ps. snd (create_training_pairs rnd pos pool tid_positive num_samples) = Inr ps \<and>
                     elems s' a = map tuple_of ps)"
proof -
  define N where "N = length s"
  obtain d where d: "s ! all_samples = PyDict d" "all_samples < N"
    and rel: "list_all2 (\<lambda>entry topic. fst entry = fst topic \<and> holds_strings s (snd entry) (snd topic)) d pool"
    using pool by (auto simp: holds_pool_def N_def split: obj.splits)
  have items: "items s all_samples = d"
    using d by (simp add: items_def N_def)
  define bs where "bs = [negs. (tid, negs) \<leftarrow> d, tid \<noteq> tid_positive \<and> elems s negs \<noteq> []]"
  define negs where "negs = negative_lists pool tid_positive"
  have refs: "[Ref negs. (tid, negs) \<leftarrow> d, tid \<noteq> tid_positive \<and> elems s negs \<noteq> []] = map Ref bs"
    and len: "length bs = length negs"
    and zip: "\<forall>(b, xs) \<in> set (zip bs negs). b < N \<and> s ! b = PyList (map Str xs)"
    using negative_refs[OF rel, of tid_positive] by (simp_all add: bs_def negs_def N_def)
  define s1 where "s1 = s @ [PyList (map Ref bs)]"
  define s2 where "s2 = s1 @ [PyList []]"
  have p: "positive_samples < N" "s ! positive_samples = PyList (map Str pos)"
    using pos by (simp_all add: holds_strings_def N_def)
  have ep1: "elems s1 positive_samples = map Str pos"
    using p by (simp add: elems_def s1_def nth_append N_def)
  have en1: "elems s1 N = map Ref bs"
    by (simp add: elems_def s1_def N_def)
  have be: "bs = [] \<longleftrightarrow> negs = []"
    using len by (metis length_0_conv)
  have start: "create_training_pairs_st rnd s positive_samples all_samples tid_positive num_samples =
      (if pos = [] then (s1, Inl (ValueError (No_positive_samples_found tid_positive)))
       else if negs = []
       then (s1, Inl (ValueError (No_non_empty_negative_sample_lists_found tid_positive)))
       else if num_samples < 0 then (s2, Inr (Suc N))
       else (case py_max (map (\<lambda>neg_list. length (elems_of s2 neg_list)) (elems s2 N)) of
                 Inl e \<Rightarrow> (s2, Inl e)
               | Inr max_len \<Rightarrow>
                  (case alloc (fold (interleave_outer N (Suc N)) [0..<max_len] s2) (PyList [])
                   of (s3, pairs) \<Rightarrow>
                     let s4 = fold (pairs_outer (Suc N) pairs) (elems s3 positive_samples) s3;
                         total_possible_pairs = length (elems s4 pairs)
                     in if num_samples \<le> int total_possible_pairs
                        then random_sample_st rnd s4 pairs num_samples
                        else (s4, Inr pairs))))"
    using be
    by (simp add: create_training_pairs_st_def items refs alloc_def s1_def[symmetric] N_def[symmetric]
        ep1 en1 s2_def[symmetric] s1_def[THEN arg_cong, of length, simplified, folded N_def])
  show ?thesis
  proof (cases "pos = [] \<or> negs = [] \<or> num_samples < 0")
    case True
    have "elems s2 (Suc N) = []"
      by (simp add: elems_def s2_def s1_def N_def nth_append)
    with True show ?thesis
      unfolding start
      by (auto simp: create_training_pairs_def negs_def[symmetric])
  next
    case False
    then have ne: "pos \<noteq> []" "negs \<noteq> []" "\<not> num_samples < 0" by simp_all
    obtain max_len where m: "py_max (map length negs) = Inr max_len"
      using ne(2) py_max_Max by blast
    define ileaved where "ileaved = concat (map (\<lambda>i. round_at i negs) [0..<max_len])"
    have il: "interleaved_negatives negs = Inr ileaved"
      unfolding ileaved_def using m by (rule interleaved_negatives_rounds_of)
    define cands where "cands = all_pairs pos ileaved"
    have pure: "snd (create_training_pairs rnd pos pool tid_positive num_samples) =
        (if num_samples \<le> int (length cands) then random_sample rnd cands num_samples
         else Inr cands)"
      using ne il by (simp add: create_training_pairs_def negs_def[symmetric] Let_def cands_def)
    have l2: "length s2 = Suc (Suc N)"
      by (simp add: s2_def s1_def N_def)
    have old2: "s2 ! b = s ! b" if "b < N" for b
      using that by (simp add: s2_def s1_def N_def nth_append)
    have zip2: "\<forall>(b, xs) \<in> set (zip bs negs).
        b \<noteq> Suc N \<and> b < length s2 \<and> s2 ! b = PyList (map Str xs)"
      using zip old2 l2 by fastforce
    have zipe: "\<forall>(b, xs) \<in> set (zip bs negs). elems s2 b = map Str xs"
      using zip2 by (auto simp: elems_def)
    have en2: "elems s2 N = map Ref bs"
      by (simp add: elems_def s2_def s1_def N_def nth_append)
    have mx: "py_max (map (\<lambda>neg_list. length (elems_of s2 neg_list)) (elems s2 N)) = Inr max_len"
      unfolding en2 lengths_of_refs[OF len zipe] by (rule m)
    define s3' where "s3' = s2[Suc N := PyList (map Str ileaved)]"
    have "fold (interleave_outer N (Suc N)) [0..<max_len] s2 =
        s2[Suc N := PyList ([] @ map Str (concat (map (\<lambda>i. round_at i negs) [0..<max_len])))]"
      using len zip2
    proof (rule interleave_outer_fold)
      show "N < length s2" "Suc N < length s2" "N \<noteq> Suc N"
        by (simp_all add: l2)
      show "s2 ! N = PyList (map Ref bs)" "s2 ! Suc N = PyList []"
        by (simp_all add: s2_def s1_def N_def nth_append)
    qed
    then have f3: "fold (interleave_outer N (Suc N)) [0..<max_len] s2 = s3'"
      by (simp add: s3'_def ileaved_def)
    define s3 where "s3 = s3' @ [PyList []]"
    have l3: "length s3' = Suc (Suc N)" "length s3 = Suc (Suc (Suc N))"
      by (simp_all add: s3_def s3'_def l2)
    have ep3: "elems s3 positive_samples = map Str pos"
      using p old2[of positive_samples] l3
      by (simp add: elems_def s3_def s3'_def nth_append)
    define s4 where "s4 = s3[Suc (Suc N) := PyList (map tuple_of cands)]"
    have "fold (pairs_outer (Suc N) (Suc (Suc N))) (map Str pos) s3 =
        s3[Suc (Suc N) := PyList ([] @ map tuple_of (all_pairs pos ileaved))]"
    proof (rule pairs_outer_fold)
      show "Suc N < length s3" "Suc (Suc N) < length s3" "Suc (Suc N) \<noteq> Suc N"
        by (simp_all add: l3)
      show "s3 ! Suc N = PyList (map Str ileaved)"
        by (simp add: s3_def s3'_def nth_append l2)
      show "s3 ! Suc (Suc N) = PyList []"
        using l3(1) by (simp add: s3_def nth_append)
    qed
    then have f4: "fold (pairs_outer (Suc N) (Suc (Suc N))) (map Str pos) s3 = s4"
      by (simp add: s4_def cands_def)
    have l4: "Suc (Suc N) < length s4" "s4 ! Suc (Suc N) = PyList (map tuple_of cands)"
      by (simp_all add: s4_def l3)
    then have e4: "elems s4 (Suc (Suc N)) = map tuple_of cands"
      by (rule elems_at)
    have run: "create_training_pairs_st rnd s positive_samples all_samples tid_positive num_samples =
        (if num_samples \<le> int (length cands)
         then random_sample_st rnd s4 (Suc (Suc N)) num_samples
         else (s4, Inr (Suc (Suc N))))"
      unfolding start using ne
      by (simp add: mx f3 alloc_def l3 s3_def[symmetric] ep3 f4 e4 Let_def)
    show ?thesis
    proof (cases "num_samples \<le> int (length cands)")
      case True
      have "0 \<le> num_samples" using ne(3) by simp
      with l4 obtain t' r ps where
        "random_sample_st rnd s4 (Suc (Suc N)) num_samples = (t', Inr r)"
        "random_sample rnd cands num_samples = Inr ps" "elems t' r = map tuple_of ps"
        using random_sample_st_refines[of "Suc (Suc N)" s4 tuple_of cands num_samples rnd] True
        by blast
      with True show ?thesis
        unfolding run pure by simp
    next
      case False
      then show ?thesis
        unfolding run pure using e4 by simp
    qed
  qed
qed

lemma example_store_holds:
  "holds_strings example_store 1 [''p1'', ''p2'']" "holds_pool example_store 0 example_pool"
  by (simp_all add: holds_strings_def holds_pool_def example_store_def example_pool_def)

lemma example_store_run:
  "\<exists>s' a. create_training_pairs_st Suc example_store 1 0 1 4 = (s', Inr a) \<and>
          elems s' a = map tuple_of
            [(''p1'', ''n2''), (''p1'', ''n3''), (''p2'', ''n1''), (''p2'', ''n3'')]"
proof -
  obtain s' r where run: "create_training_pairs_st Suc example_store 1 0 1 4 = (s', r)"
    and r: "case r of
              Inl e \<Rightarrow> snd (create_training_pairs Suc [''p1'', ''p2''] example_pool 1 4) = Inl e
            | Inr a \<Rightarrow>
                \<exists>ps. snd (create_training_pairs Suc [''p1'', ''p2''] example_pool 1 4) = Inr ps \<and>
                     elems s' a = map tuple_of ps"
    using create_training_pairs_st_refines [OF example_store_holds, of Suc 1 4] by blast
  show ?thesis
  proof (cases r)
    case (Inl e)
    with r show ?thesis by (simp add: example_pool_sample_4)
  next
    case (Inr a)
    with r have "elems s' a = map tuple_of
        [(''p1'', ''n2''), (''p1'', ''n3''), (''p2'', ''n1''), (''p2'', ''n3'')]"
      by (simp add: example_pool_sample_4)
    with run Inr show ?thesis by blast
  qed
qed

subsection \<open>C8: the call does not mutate its arguments\<close>

lemma alloc_frame:
  "n \<le> length s \<Longrightarrow> n \<le> length (fst (alloc s ob)) \<and> take n (fst (alloc s ob)) = take n s"
  by (simp add: alloc_def)

lemma alloc_addr: "n \<le> length s \<Longrightarrow> n \<le> snd (alloc s ob)"
  by (simp add: alloc_def)

lemma list_append_frame:
  "n \<le> a \<Longrightarrow> n \<le> length s \<Longrightarrow>
   n \<le> length (list_append s a v) \<and> take n (list_append s a v) = take n s"
  by (simp add: list_append_def take_update_cancel split: obj.split)

lemma list_set_frame:
  "n \<le> a \<Longrightarrow> n \<le> length s \<Longrightarrow>
   n \<le> length (list_set s a i v) \<and> take n (list_set s a i v) = take n s"
  by (simp add: list_set_def take_update_cancel split: obj.split)

lemma fold_frame:
  assumes step: "\<And>x s. n \<le> length s \<Longrightarrow> n \<le> length (f x s) \<and> take n (f x s) = take n s"
  shows "n \<le> length s \<Longrightarrow> n \<le> length (fold f xs s) \<and> take n (fold f xs s) = take n s"
proof (induction xs arbitrary: s)
  case Nil
  then show ?case by simp
next
  case (Cons x xs)
  from step[OF Cons.prems] have 1: "n \<le> length (f x s)" and 2: "take n (f x s) = take n s"
    by simp_all
  from Cons.IH[OF 1] 2 show ?case by simp
qed

lemma interleave_inner_frame:
  "n \<le> interleaved \<Longrightarrow> n \<le> length s \<Longrightarrow>
   n \<le> length (interleave_inner interleaved i neg_list s) \<and>
   take n (interleave_inner interleaved i neg_list s) = take n s"
  by (simp add: interleave_inner_def list_append_frame)

lemma interleave_outer_frame:
  assumes "n \<le> interleaved" "n \<le> length s"
  shows "n \<le> length (interleave_outer neg_lists interleaved i s) \<and>
         take n (interleave_outer neg_lists interleaved i s) = take n s"
  unfolding interleave_outer_def
  using assms(2) by (rule fold_frame[rotated]) (rule interleave_inner_frame[OF assms(1)])

lemma pairs_outer_frame:
  assumes "n \<le> pairs" "n \<le> length s"
  shows "n \<le> length (pairs_outer interleaved pairs pos_sample s) \<and>
         take n (pairs_outer interleaved pairs pos_sample s) = take n s"
  unfolding pairs_outer_def
  using assms(2)
  by (rule fold_frame[rotated]) (simp add: pairs_inner_def list_append_frame[OF assms(1)])

lemma sample_step_st_frame:
  assumes "n \<le> pool" "n \<le> result" "n \<le> length s"
  shows "n \<le> length (sample_step_st rnd m pool result i s) \<and>
         take n (sample_step_st rnd m pool result i s) = take n s"
proof -
  define j where "j = rnd i mod (m - i)"
  define s' where "s' = list_set s result i (elems s pool ! j)"
  have 1: "n \<le> length s' \<and> take n s' = take n s"
    unfolding s'_def using assms(2,3) by (rule list_set_frame)
  then have "n \<le> length (list_set s' pool j (elems s' pool ! (m - i - 1))) \<and>
        take n (list_set s' pool j (elems s' pool ! (m - i - 1))) = take n s'"
    using assms(1) by (simp add: list_set_frame)
  with 1 show ?thesis
    by (simp add: sample_step_st_def Let_def j_def s'_def)
qed

lemma random_sample_st_frame:
  assumes "n \<le> length s"
  shows "n \<le> length (fst (random_sample_st rnd s population k)) \<and>
         take n (fst (random_sample_st rnd s population k)) = take n s"
proof (cases "0 \<le> k \<and> k \<le> int (length (elems s population))")
  case False
  then show ?thesis using assms by (auto simp: random_sample_st_def Let_def)
next
  case True
  define m where "m = length (elems s population)"
  define s1 where "s1 = s @ [PyList (replicate (nat k) PyNone)]"
  define s2 where "s2 = s1 @ [PyList (elems s1 population)]"
  have r: "fst (random_sample_st rnd s population k) =
      fold (sample_step_st rnd m (length s1) (length s)) [0..<nat k] s2"
    using True by (simp add: random_sample_st_def Let_def alloc_def m_def s1_def s2_def)
  have 2: "n \<le> length s2" "take n s2 = take n s"
    using assms by (simp_all add: s1_def s2_def)
  have "n \<le> length (fold (sample_step_st rnd m (length s1) (length s)) [0..<nat k] s2) \<and>
        take n (fold (sample_step_st rnd m (length s1) (length s)) [0..<nat k] s2) = take n s2"
    using 2(1)
  proof (rule fold_frame[rotated])
    fix x and t :: store
    assume "n \<le> length t"
    moreover have "n \<le> length s1" using assms by (simp add: s1_def)
    ultimately show "n \<le> length (sample_step_st rnd m (length s1) (length s) x t) \<and>
        take n (sample_step_st rnd m (length s1) (length s) x t) = take n t"
      using assms by (simp add: sample_step_st_frame)
  qed
  with 2 r show ?thesis by simp
qed

lemma create_training_pairs_st_frame:
  assumes "n \<le> length s"
  shows "n \<le> length (fst (create_training_pairs_st rnd s positive_samples all_samples tid_positive num_samples)) \<and>
         take n (fst (create_training_pairs_st rnd s positive_samples all_samples tid_positive num_samples)) = take n s"
proof -
  define s1 where "s1 = s @ [PyList [Ref negs. (tid, negs) \<leftarrow> items s all_samples,
                                      tid \<noteq> tid_positive \<and> elems s negs \<noteq> []]]"
  define s2 where "s2 = s1 @ [PyList []]"
  have 1: "n \<le> length s1" "take n s1 = take n s"
    using assms by (simp_all add: s1_def)
  have 2: "n \<le> length s2" "take n s2 = take n s"
    using 1 by (simp_all add: s2_def)
  have i: "n \<le> length s1" by fact
  have rest: "n \<le> length (fst r) \<and> take n (fst r) = take n s"
    if r: "r = (case alloc (fold (interleave_outer (length s) (length s1)) [0..<max_len] s2) (PyList [])
                   of (s3, pairs) \<Rightarrow>
                     let s4 = fold (pairs_outer (length s1) pairs) (elems s3 positive_samples) s3;
                         total_possible_pairs = length (elems s4 pairs)
                     in if num_samples \<le> int total_possible_pairs
                        then random_sample_st rnd s4 pairs num_samples
                        else (s4, Inr pairs))"
    for r max_len
  proof -
    define s3' where "s3' = fold (interleave_outer (length s) (length s1)) [0..<max_len] s2"
    define s3 where "s3 = s3' @ [PyList []]"
    define s4 where "s4 = fold (pairs_outer (length s1) (length s3')) (elems s3 positive_samples) s3"
    have s3'_frame: "n \<le> length s3' \<and> take n s3' = take n s2"
      unfolding s3'_def using 2(1)
      by (rule fold_frame[rotated]) (rule interleave_outer_frame[OF i])
    from s3'_frame have 3: "n \<le> length s3" "take n s3 = take n s"
      using 2 by (simp_all add: s3_def)
    have "n \<le> length s4 \<and> take n s4 = take n s3"
      unfolding s4_def using 3(1)
      by (rule fold_frame[rotated]) (rule pairs_outer_frame, simp add: s3'_frame)
    with 3 have 4: "n \<le> length s4" "take n s4 = take n s" by simp_all
    have "r = (if num_samples \<le> int (length (elems s4 (length s3')))
               then random_sample_st rnd s4 (length s3') num_samples
               else (s4, Inr (length s3')))"
      unfolding r by (simp add: alloc_def Let_def s3'_def s3_def s4_def)
    then show ?thesis
      using 4 random_sample_st_frame[OF 4(1), of rnd "length s3'" num_samples]
      by (simp split: if_splits)
  qed
  show ?thesis
    unfolding create_training_pairs_st_def
    using 1 2 rest
    by (simp add: alloc_def s1_def[symmetric] s2_def[symmetric] split: sum.split)
qed

lemma frame_elems:
  assumes "take (length s) s' = s" "a < length s"
  shows "elems s' a = elems s a" and "items s' a = items s a"
proof -
  have "length (take (length s) s') = length s"
    by (simp only: assms(1))
  then have l: "length s \<le> length s'"
    by simp
  have "take (length s) s' ! a = s' ! a"
    using assms(2) by simp
  then have "s' ! a = s ! a"
    using assms(1) by simp
  then show "elems s' a = elems s a" and "items s' a = items s a"
    using l assms(2) by (simp_all add: elems_def items_def)
qed

text \<open>
  C8. For every store and every argument, each object that exists before the call is the
  same object with the same contents after it: the store after the call is the store before
  it followed by the objects the call creates. In particular the dictionary at
  \<open>all_samples\<close>, every list it refers to and the list at \<open>positive_samples\<close> are
  unchanged, on the error paths as well.
\<close>

theorem C8_pool_unchanged:
  "take (length s)
     (fst (create_training_pairs_st rnd s positive_samples all_samples tid_positive num_samples)) = s \<and>
   (all_samples < length s \<longrightarrow>
      items (fst (create_training_pairs_st rnd s positive_samples all_samples tid_positive num_samples))
        all_samples = items s all_samples) \<and>
   (\<forall>(tid, negs) \<in> set (items s all_samples). negs < length s \<longrightarrow>
      elems (fst (create_training_pairs_st rnd s positive_samples all_samples tid_positive num_samples))
        negs = elems s negs) \<and>
   (positive_samples < length s \<longrightarrow>
      elems (fst (create_training_pairs_st rnd s positive_samples all_samples tid_positive num_samples))
        positive_samples = elems s positive_samples)"
proof -
  define s' where
    "s' = fst (create_training_pairs_st rnd s positive_samples all_samples tid_positive num_samples)"
  have "take (length s) s' = take (length s) s"
    unfolding s'_def using create_training_pairs_st_frame[of "length s" s] by simp
  then have t: "take (length s) s' = s" by simp
  then show ?thesis
    unfolding s'_def[symmetric] using frame_elems[OF t] by auto
qed

text \<open>
  C8 on the worked example: the dictionary at address 0 and the lists at the addresses
  1, 2 and 3 after a call with the count 4.
\<close>

theorem C8_pool_unchanged_witness:
  "take 4 (fst (create_training_pairs_st Suc example_store 1 0 1 4)) = example_store \<and>
   items (fst (create_training_pairs_st Suc example_store 1 0 1 4)) 0 = [(1, 1), (2, 2), (3, 3)] \<and>
   elems (fst (create_training_pairs_st Suc example_store 1 0 1 4)) 1 = [Str ''p1'', Str ''p2''] \<and>
   elems (fst (create_training_pairs_st Suc example_store 1 0 1 4)) 2 = [Str ''n1''] \<and>
   elems (fst (create_training_pairs_st Suc example_store 1 0 1 4)) 3 = [Str ''n2'', Str ''n3'']"
proof -
  note t = C8_pool_unchanged [of example_store Suc 1 0 1 4]
  have l: "length example_store = 4" by (simp add: example_store_def)
  have i: "items example_store 0 = [(1, 1), (2, 2), (3, 3)]"
    by (simp add: example_store_def items_def)
  have e: "elems example_store 1 = [Str ''p1'', Str ''p2'']"
    "elems example_store 2 = [Str ''n1'']"
    "elems example_store 3 = [Str ''n2'', Str ''n3'']"
    "elems example_store (Suc 0) = [Str ''p1'', Str ''p2'']"
    by (simp_all add: example_store_def elems_def)
  from t have "take 4 (fst (create_training_pairs_st Suc example_store 1 0 1 4)) = example_store"
    by (simp add: l)
  moreover from t have "items (fst (create_training_pairs_st Suc example_store 1 0 1 4)) 0 =
      [(1, 1), (2, 2), (3, 3)]"
    by (simp add: l i)
  moreover from t have "elems (fst (create_training_pairs_st Suc example_store 1 0 1 4)) 1 =
      [Str ''p1'', Str ''p2'']"
    by (simp add: l e)
  moreover from t have
    "elems (fst (create_training_pairs_st Suc example_store 1 0 1 4)) 2 = [Str ''n1'']"
    "elems (fst (create_training_pairs_st Suc example_store 1 0 1 4)) 3 = [Str ''n2'', Str ''n3'']"
    by (simp_all add: l i e)
  ultimately show ?thesis by blast
qed

end
